theory Spec2Isabelle
  imports Main "HOL-Library.Multiset"
begin

section \<open>JSON values and JavaScript conversions\<close>

text \<open>
  The destination kit works on loosely typed JSON. A JSON object is kept as the list of
  its entries in enumeration order; a property that is absent reads as \<open>None\<close>
  (JavaScript's \<open>undefined\<close>). Numbers are restricted to integers, of a magnitude that
  JavaScript prints in plain decimal.
\<close>

datatype json =
    JNull
  | JBool bool
  | JNum int
  | JStr string
  | JArr "json list"
  | JObj "(string \<times> json) list"

type_synonym JSONObject = "(string \<times> json) list"
type_synonym JSONArray = "json list"

text \<open>
  Errors are values. \<open>BadRequest\<close> is the http-errors class thrown by
  \<open>onSubscription\<close>, \<open>Error\<close> the plain error thrown by \<open>testCredentials\<close>,
  \<open>TypeError\<close> and \<open>SyntaxError\<close> are raised by the language itself (a property read
  on \<open>null\<close> or \<open>undefined\<close>, a call of something that is no function,
  \<open>JSON.parse\<close>); the remaining ones are raised by collaborators.
\<close>

datatype error =
    BadRequest string
  | Error string
  | TypeError
  | SyntaxError string
  | ValidationError string
  | RequestError string

text \<open>Reading a property of a value that is not \<open>null\<close>: only plain objects carry the
  keys read by this file.\<close>

fun member :: "json \<Rightarrow> string \<Rightarrow> json option" where
  "member (JObj kvs) k = map_of kvs k"
| "member _ k = None"

fun digits :: "nat \<Rightarrow> string" where
  "digits n = (if n < 10 then [char_of (48 + n)] else digits (n div 10) @ [char_of (48 + n mod 10)])"

definition Number_toString :: "int \<Rightarrow> string" where
  "Number_toString i = (if i < 0 then CHR ''-'' # digits (nat (- i)) else digits (nat i))"

fun join :: "string \<Rightarrow> string list \<Rightarrow> string" where
  "join sep [] = []"
| "join sep [x] = x"
| "join sep (x # y # ys) = x @ sep @ join sep (y # ys)"

text \<open>JavaScript's \<open>ToString\<close> on JSON values, as used by a template literal and by a
  computed property key.\<close>

fun ToString :: "json \<Rightarrow> string" where
  "ToString JNull = ''null''"
| "ToString (JBool b) = (if b then ''true'' else ''false'')"
| "ToString (JNum i) = Number_toString i"
| "ToString (JStr s) = s"
| "ToString (JArr xs) = join '','' (map (\<lambda>x. case x of JNull \<Rightarrow> [] | _ \<Rightarrow> ToString x) xs)"
| "ToString (JObj kvs) = ''[object Object]''"

definition ToString_opt :: "json option \<Rightarrow> string" where
  "ToString_opt v = (case v of None \<Rightarrow> ''undefined'' | Some x \<Rightarrow> ToString x)"

section \<open>Data model\<close>

text \<open>
  The interfaces of the source as records. A field carries its name in the source after
  a short prefix for its record (\<open>sr_\<close>, \<open>ei_\<close>, \<open>sub_\<close>, \<open>ctx_\<close>), since the source uses
  the bare names for variables as well.
\<close>

record StepResult =
  sr_output :: json

record ExecuteInput =
  ei_payload :: json
  ei_mapping :: "json option"
  ei_settings :: JSONObject

text \<open>One entry of the Context's \<open>subscriptions\<close> log (interface \<open>Subscriptions\<close>).\<close>

record Subscriptions =
  sub_duration :: int
  sub_destination :: string
  sub_action :: string
  sub_input :: ExecuteInput
  sub_output :: "StepResult list"

text \<open>The request context. Of its fields only the appendable \<open>subscriptions\<close> log is
  touched by the destination kit.\<close>

record Context =
  ctx_subscriptions :: "Subscriptions list"

definition append_context :: "Context \<Rightarrow> Subscriptions \<Rightarrow> Context" where
  "append_context context v = context\<lparr>ctx_subscriptions := ctx_subscriptions context @ [v]\<rparr>"

text \<open>
  An action is outside this file: it is taken as any function that, run on an
  \<open>ExecuteInput\<close> in a state of the outside world \<open>'w\<close>, either rejects with an error or
  resolves with its step results and the input object as its steps left it, and leaves
  the world in a new state. \<open>execute\<close> is awaited, so its outcome reaches the caller
  after the \<open>await\<close>. Actions are taken to leave the event and the settings objects
  themselves as they are.
\<close>

type_synonym 'w Action =
  "ExecuteInput \<Rightarrow> 'w \<Rightarrow> (error + (StepResult list \<times> ExecuteInput)) \<times> 'w"

text \<open>A request extension maps the execution input to options for the request client.\<close>

type_synonym Extension = "ExecuteInput \<Rightarrow> error + json"

text \<open>The request client handed to the credential probe: the options it was extended
  with, in order. \<open>TestDefaults\<close> stands for
  \<open>{retry: 0, timeout: 3000, headers: {'user-agent': undefined}}\<close>.\<close>

datatype GotOptions = TestDefaults | Options json

type_synonym Request = "GotOptions list"

record 'w TestAuth =
  auth_type :: string
  options_testCredentials :: "Request \<Rightarrow> JSONObject \<Rightarrow> 'w \<Rightarrow> (error + json) \<times> 'w"

record DestinationConfig =
  name :: string
  defaultSubscriptions :: "json list"

text \<open>The fields of the class. \<open>partnerActions\<close> holds the registered actions, that is the
  own properties of the registry object.\<close>

record 'w Destination =
  config :: DestinationConfig
  partnerActions :: "string \<Rightarrow> 'w Action option"
  requestExtensions :: "Extension list"
  settingsSchema :: "JSONObject option"
  auth :: "'w TestAuth option"

text \<open>
  The collaborators that the destination kit imports: the subscription predicate
  evaluator \<open>validate\<close>, the built-in \<open>JSON.parse\<close>, the clock functions \<open>time\<close> and
  \<open>duration\<close>, and the \<open>executeStep\<close> method of a \<open>Validate\<close> step built from a
  prefix, a field name and a schema.
\<close>

record 'w env =
  validate :: "json option \<Rightarrow> json \<Rightarrow> error + bool"
  JSON_parse :: "string \<Rightarrow> error + json"
  time :: "'w \<Rightarrow> int"
  duration :: "int \<Rightarrow> int \<Rightarrow> int"
  Validate_executeStep :: "string \<Rightarrow> string \<Rightarrow> JSONObject \<Rightarrow> ExecuteInput \<Rightarrow> error + StepResult"

text \<open>
  The state threaded through a call: the caller's Context object, the outside world, and
  the list of the action executions so far (slug and input, in the order in which the
  actions took effect), which makes "this action was run with this input" something a
  theorem can speak about.
\<close>

record 'w state =
  ctx :: Context
  world :: 'w
  executed :: "(string \<times> ExecuteInput) list"

section \<open>Redaction\<close>

text \<open>Modelled from the spec: \<open>redactSettings\<close> lives in \<open>lib/redact\<close>, which is not among
  the sources. The spec says that the field keys marked private are replaced with a fixed
  placeholder; the placeholder's text is not given and is fixed here.\<close>

definition REDACTED :: json where
  "REDACTED = JStr ''<REDACTED>''"

text \<open>Modelled from the spec: every entry of the settings whose key is listed in
  \<open>privateSettings\<close> has its value replaced with the placeholder.\<close>

definition redactSettings :: "JSONObject \<Rightarrow> JSONArray \<Rightarrow> JSONObject" where
  "redactSettings settings privateSettings =
     map (\<lambda>(k, v). if JStr k \<in> set privateSettings then (k, REDACTED) else (k, v)) settings"

section \<open>The destination runtime\<close>

text \<open>The constructor and the builder methods \<open>extendRequest\<close>, \<open>validateSettings\<close> and
  \<open>apiKeyAuth\<close>. The schema is typed \<open>object\<close> in the source, so a configured schema is
  always truthy.\<close>

definition new_Destination :: "DestinationConfig \<Rightarrow> 'w Destination" where
  "new_Destination cfg =
     \<lparr>config = cfg, partnerActions = (\<lambda>slug. None), requestExtensions = [],
      settingsSchema = None, auth = None\<rparr>"

definition extendRequest :: "'w Destination \<Rightarrow> Extension list \<Rightarrow> 'w Destination" where
  "extendRequest d extensions = d\<lparr>requestExtensions := requestExtensions d @ extensions\<rparr>"

definition validateSettings :: "'w Destination \<Rightarrow> JSONObject \<Rightarrow> 'w Destination" where
  "validateSettings d schema = d\<lparr>settingsSchema := Some schema\<rparr>"

definition apiKeyAuth ::
  "'w Destination \<Rightarrow> (Request \<Rightarrow> JSONObject \<Rightarrow> 'w \<Rightarrow> (error + json) \<times> 'w) \<Rightarrow> 'w Destination" where
  "apiKeyAuth d options =
     d\<lparr>auth := Some \<lparr>auth_type = ''apiKey'', options_testCredentials = options\<rparr>\<rparr>"

definition instrumentSubscription :: "Context \<Rightarrow> Subscriptions \<Rightarrow> Context" where
  "instrumentSubscription context input =
     append_context context
       \<lparr>sub_duration = sub_duration input,
        sub_destination = sub_destination input,
        sub_action = sub_action input,
        sub_input = sub_input input,
        sub_output = sub_output input\<rparr>"

definition getSubscriptions :: "'w env \<Rightarrow> JSONObject \<Rightarrow> error + json option" where
  "getSubscriptions env settings =
     (let subscriptions = map_of settings ''subscriptions'' in
      case subscriptions of
        Some (JStr s) \<Rightarrow> (case JSON_parse env s of Inl e \<Rightarrow> Inl e | Inr v \<Rightarrow> Inr (Some v))
      | _ \<Rightarrow> Inr subscriptions)"

definition getDestinationSettings :: "JSONObject \<Rightarrow> JSONObject" where
  "getDestinationSettings settings = filter (\<lambda>(k, v). k \<noteq> ''subscriptions'') settings"

text \<open>
  \<open>partnerActions\<close> is a plain object literal, so a lookup that finds no registered
  action still finds what every object inherits from \<open>Object.prototype\<close>.
\<close>

definition Object_prototype_keys :: "string list" where
  "Object_prototype_keys =
     [''constructor'', ''__defineGetter__'', ''__defineSetter__'', ''hasOwnProperty'',
      ''__lookupGetter__'', ''__lookupSetter__'', ''isPrototypeOf'', ''propertyIsEnumerable'',
      ''toString'', ''valueOf'', ''__proto__'', ''toLocaleString'']"

datatype 'w property = Own "'w Action" | Inherited | Undefined

definition partnerActions_get :: "'w Destination \<Rightarrow> string \<Rightarrow> 'w property" where
  "partnerActions_get d key =
     (case partnerActions d key of
        Some a \<Rightarrow> Own a
      | None \<Rightarrow> if key \<in> set Object_prototype_keys then Inherited else Undefined)"

definition not_a_valid_action :: "string \<Rightarrow> string" where
  "not_a_valid_action slug = [CHR 0x22] @ slug @ [CHR 0x22] @ '' is not a valid action''"

text \<open>
  \<open>onSubscription\<close> is an async method: it runs without interruption up to its one
  \<open>await\<close>, that of \<open>action.execute(input)\<close>, and goes on when the action has settled.
  A task is a call of \<open>onSubscription\<close> at that point: it has settled at once (the
  subscription is \<open>null\<close>, the predicate failed or did not match, the slug names no
  action), or it awaits its action, holding the slug, the action, the time at which it
  started and the input it built.
\<close>

datatype 'w task =
    Settled "error + StepResult list"
  | Awaiting string "'w Action" int ExecuteInput

fun at_once :: "'w task \<Rightarrow> bool" where
  "at_once (Settled r) = True"
| "at_once (Awaiting actionSlug action subscriptionStartedAt input) = False"

text \<open>The part of \<open>onSubscription\<close> before the \<open>await\<close>. It reads the clock of the world
  and changes nothing.\<close>

definition onSubscription_start ::
  "'w env \<Rightarrow> 'w Destination \<Rightarrow> json \<Rightarrow> json \<Rightarrow> JSONObject \<Rightarrow> 'w \<Rightarrow> 'w task" where
  "onSubscription_start env d subscription event settings w =
     (if subscription = JNull then Settled (Inl TypeError)
      else
        (case validate env (member subscription ''subscribe'') event of
           Inl e \<Rightarrow> Settled (Inl e)
         | Inr isSubscribed \<Rightarrow>
             if \<not> isSubscribed then Settled (Inr [\<lparr>sr_output = JStr ''not subscribed''\<rparr>])
             else
               (let actionSlug = ToString_opt (member subscription ''partnerAction'') in
                case partnerActions_get d actionSlug of
                  Undefined \<Rightarrow> Settled (Inl (BadRequest (not_a_valid_action actionSlug)))
                | Inherited \<Rightarrow> Settled (Inl TypeError)
                | Own action \<Rightarrow>
                    (let subscriptionStartedAt = time env w;
                         input = \<lparr>ei_payload = event,
                                  ei_mapping = member subscription ''mapping'',
                                  ei_settings = settings\<rparr>
                     in Awaiting actionSlug action subscriptionStartedAt input))))"

text \<open>The part of \<open>onSubscription\<close> from the \<open>await\<close> on. The action takes effect on the
  world as one step, at the moment it settles (what happens inside an action, and how
  two actions interleave, is outside this file); the execution is recorded, and a
  resolved action is instrumented.\<close>

fun onSubscription_finish ::
  "'w env \<Rightarrow> 'w Destination \<Rightarrow> JSONObject \<Rightarrow> JSONArray \<Rightarrow> 'w task \<Rightarrow> 'w state
     \<Rightarrow> (error + StepResult list) \<times> 'w state" where
  "onSubscription_finish env d settings privateSettings (Settled r) st = (r, st)"
| "onSubscription_finish env d settings privateSettings
     (Awaiting actionSlug action subscriptionStartedAt input) st =
     (let (outcome, w) = action input (world st);
          st1 = st\<lparr>world := w, executed := executed st @ [(actionSlug, input)]\<rparr>
      in case outcome of
           Inl e \<Rightarrow> (Inl e, st1)
         | Inr (results, input') \<Rightarrow>
             (let subscriptionEndedAt = time env w;
                  subscriptionDuration = duration env subscriptionStartedAt subscriptionEndedAt
              in (Inr results,
                  st1\<lparr>ctx := instrumentSubscription (ctx st1)
                    \<lparr>sub_duration = subscriptionDuration,
                     sub_destination = name (config d),
                     sub_action = actionSlug,
                     sub_input = input'\<lparr>ei_settings := redactSettings settings privateSettings\<rparr>,
                     sub_output = results\<rparr>\<rparr>)))"

text \<open>One call of \<open>onSubscription\<close> from its start to its end, with no other task in
  between.\<close>

definition onSubscription ::
  "'w env \<Rightarrow> 'w Destination \<Rightarrow> json \<Rightarrow> json \<Rightarrow> JSONObject \<Rightarrow> JSONArray \<Rightarrow> 'w state
     \<Rightarrow> (error + StepResult list) \<times> 'w state" where
  "onSubscription env d subscription event settings privateSettings st =
     onSubscription_finish env d settings privateSettings
       (onSubscription_start env d subscription event settings (world st)) st"

text \<open>
  In \<open>onEvent\<close> the tasks run concurrently. \<open>subscriptions.map\<close> starts them in
  declaration order, each up to its \<open>await\<close>, before any action settles. The outcomes
  then reach \<open>Promise.all\<close> in this order: first those of the tasks that settled at
  once, in declaration order (their reactions are queued while \<open>Promise.all\<close> walks the
  array), then those of the tasks that await an action, in the order in which the actions
  settle. That order is a parameter: \<open>completion i\<close> is the time at which the action of
  subscription \<open>i\<close> settles, and \<open>schedule\<close> sorts the tasks by it. Every order of the
  tasks is the schedule of some \<open>completion\<close>, see \<open>every_order_is_a_schedule\<close>.
\<close>

definition schedule :: "(nat \<Rightarrow> nat) \<Rightarrow> nat \<Rightarrow> nat list" where
  "schedule completion n = sort_key completion [0..<n]"

definition arrival :: "'w task list \<Rightarrow> nat list \<Rightarrow> nat list" where
  "arrival promises order =
     filter (\<lambda>i. at_once (promises ! i)) [0..<length promises] @
     filter (\<lambda>i. \<not> at_once (promises ! i)) order"

fun settle_tasks ::
  "'w env \<Rightarrow> 'w Destination \<Rightarrow> JSONObject \<Rightarrow> JSONArray \<Rightarrow> 'w task list \<Rightarrow> nat list
     \<Rightarrow> 'w state \<Rightarrow> (nat \<times> (error + StepResult list)) list \<times> 'w state" where
  "settle_tasks env d settings privateSettings promises [] st = ([], st)"
| "settle_tasks env d settings privateSettings promises (i # order) st =
     (let (r, st1) = onSubscription_finish env d settings privateSettings (promises ! i) st;
          (rs, st2) = settle_tasks env d settings privateSettings promises order st1
      in ((i, r) # rs, st2))"

text \<open>The run of all tasks of an event, for the order \<open>order\<close> in which the actions
  settle: the outcomes, tagged with the index of their subscription, in the order in
  which they reach \<open>Promise.all\<close>, and the state when the last task has settled.\<close>

definition settle ::
  "'w env \<Rightarrow> 'w Destination \<Rightarrow> json list \<Rightarrow> json \<Rightarrow> JSONObject \<Rightarrow> JSONArray \<Rightarrow> nat list
     \<Rightarrow> 'w state \<Rightarrow> (nat \<times> (error + StepResult list)) list \<times> 'w state" where
  "settle env d subscriptions event settings privateSettings order st =
     (let promises = map (\<lambda>s. onSubscription_start env d s event settings (world st)) subscriptions
      in settle_tasks env d settings privateSettings promises (arrival promises order) st)"

text \<open>
  \<open>Promise.all\<close> over \<open>n\<close> promises that settle in the given order, each tagged with its
  index in the array: a fulfilment stores the value at the index of its promise, the
  first rejection to arrive rejects the whole, and once everything has settled the
  stored values are the result, in index order.
\<close>

fun Promise_all_from ::
  "(nat \<Rightarrow> 'a option) \<Rightarrow> nat \<Rightarrow> (nat \<times> (error + 'a)) list \<Rightarrow> error + 'a list" where
  "Promise_all_from values n [] = Inr (List.map_filter values [0..<n])"
| "Promise_all_from values n ((i, Inl e) # settled) = Inl e"
| "Promise_all_from values n ((i, Inr v) # settled) = Promise_all_from (values(i \<mapsto> v)) n settled"

definition Promise_all :: "nat \<Rightarrow> (nat \<times> (error + 'a)) list \<Rightarrow> error + 'a list" where
  "Promise_all n settled = Promise_all_from (\<lambda>i. None) n settled"

text \<open>
  \<open>onEvent\<close> for the arguments the caller passes (the source defaults absent settings to
  the empty object and absent private settings to the empty list). The settings are
  passed by their content here; \<open>onEvent_at\<close> below passes the caller's object by its
  address. The state returned is the one reached when every task has settled, which on
  a rejection is later than the moment the caller sees the error.
\<close>

definition onEvent ::
  "'w env \<Rightarrow> 'w Destination \<Rightarrow> (nat \<Rightarrow> nat) \<Rightarrow> json \<Rightarrow> JSONObject \<Rightarrow> JSONArray \<Rightarrow> 'w state
     \<Rightarrow> (error + StepResult list) \<times> 'w state" where
  "onEvent env d completion event settings privateSettings st =
     (case getSubscriptions env settings of
        Inl e \<Rightarrow> (Inl e, st)
      | Inr subscriptions \<Rightarrow>
          (let destinationSettings = getDestinationSettings settings in
           case subscriptions of
             Some (JArr subs) \<Rightarrow>
               (let (promises, st1) =
                      settle env d subs event destinationSettings privateSettings
                        (schedule completion (length subs)) st
                in case Promise_all (length subs) promises of
                     Inl e \<Rightarrow> (Inl e, st1)
                   | Inr results \<Rightarrow> (Inr (concat results), st1))
           | _ \<Rightarrow> (Inl TypeError, st)))"

section \<open>The caller's settings object\<close>

text \<open>
  JavaScript hands \<open>onEvent\<close> the caller's settings object itself, not a copy. To speak
  about what becomes of that object, objects are kept in a store: the object with
  address \<open>a\<close> is the element at index \<open>a\<close>, and a new object is added at the end. Two
  functions of the source receive the caller's object. \<open>getSubscriptions\<close> reads one
  property of it. \<open>getDestinationSettings\<close> destructures it with a rest pattern, which
  makes a new object of the remaining properties. The tasks are given the content of
  that new object; the values inside an object are kept by value.
\<close>

type_synonym store = "JSONObject list"

definition getSubscriptions_at :: "'w env \<Rightarrow> nat \<Rightarrow> store \<Rightarrow> (error + json option) \<times> store" where
  "getSubscriptions_at env settings objects = (getSubscriptions env (objects ! settings), objects)"

definition getDestinationSettings_at :: "nat \<Rightarrow> store \<Rightarrow> nat \<times> store" where
  "getDestinationSettings_at settings objects =
     (let otherSettings = getDestinationSettings (objects ! settings)
      in (length objects, objects @ [otherSettings]))"

definition onEvent_at ::
  "'w env \<Rightarrow> 'w Destination \<Rightarrow> (nat \<Rightarrow> nat) \<Rightarrow> json \<Rightarrow> nat \<Rightarrow> JSONArray \<Rightarrow> 'w state \<Rightarrow> store
     \<Rightarrow> ((error + StepResult list) \<times> 'w state) \<times> store" where
  "onEvent_at env d completion event settings privateSettings st objects =
     (case getSubscriptions_at env settings objects of
        (Inl e, objects1) \<Rightarrow> ((Inl e, st), objects1)
      | (Inr subscriptions, objects1) \<Rightarrow>
          (let (destinationSettings, objects2) = getDestinationSettings_at settings objects1 in
           case subscriptions of
             Some (JArr subs) \<Rightarrow>
               (let (promises, st1) =
                      settle env d subs event (objects2 ! destinationSettings) privateSettings
                        (schedule completion (length subs)) st
                in case Promise_all (length subs) promises of
                     Inl e \<Rightarrow> ((Inl e, st1), objects2)
                   | Inr results \<Rightarrow> ((Inr (concat results), st1), objects2))
           | _ \<Rightarrow> ((Inl TypeError, st), objects2)))"

section \<open>Credential testing\<close>

text \<open>The loop \<open>for (const extension of this.requestExtensions)\<close>: every extension sees the
  same execution input, and its options extend the request client.\<close>

fun extend_all :: "Extension list \<Rightarrow> ExecuteInput \<Rightarrow> Request \<Rightarrow> error + Request" where
  "extend_all [] context request = Inr request"
| "extend_all (extension # extensions) context request =
     (case extension context of
        Inl e \<Rightarrow> Inl e
      | Inr options \<Rightarrow> extend_all extensions context (request @ [Options options]))"

definition testCredentials ::
  "'w env \<Rightarrow> 'w Destination \<Rightarrow> JSONObject \<Rightarrow> 'w state \<Rightarrow> (error + unit) \<times> 'w state" where
  "testCredentials env d settings st =
     (let context = \<lparr>ei_payload = JObj [], ei_mapping = None, ei_settings = settings\<rparr> in
      case (case settingsSchema d of
              Some schema \<Rightarrow> Validate_executeStep env '''' ''settings'' schema context
            | None \<Rightarrow> Inr \<lparr>sr_output = JNull\<rparr>) of
        Inl e \<Rightarrow> (Inl e, st)
      | Inr _ \<Rightarrow>
          (case auth d of
             None \<Rightarrow> (Inr (), st)
           | Some a \<Rightarrow>
               (case extend_all (requestExtensions d) context [TestDefaults] of
                  Inl e \<Rightarrow> (Inl e, st)
                | Inr request \<Rightarrow>
                    (case options_testCredentials a request settings (world st) of
                       (Inl error, w) \<Rightarrow> (Inl (Error ''Credentials are invalid''), st\<lparr>world := w\<rparr>)
                     | (Inr response, w) \<Rightarrow> (Inr (), st\<lparr>world := w\<rparr>)))))"

section \<open>Names for what a subscription attempt computes\<close>

text \<open>The local values \<open>actionSlug\<close> and \<open>input\<close> of \<open>onSubscription\<close>.\<close>

definition actionSlug_of :: "json \<Rightarrow> string" where
  "actionSlug_of subscription = ToString_opt (member subscription ''partnerAction'')"

definition input_of :: "json \<Rightarrow> json \<Rightarrow> JSONObject \<Rightarrow> ExecuteInput" where
  "input_of subscription event settings =
     \<lparr>ei_payload = event, ei_mapping = member subscription ''mapping'', ei_settings = settings\<rparr>"

text \<open>A subscription reaches its action: it is an object whose predicate matches and
  whose slug names a registered action.\<close>

definition executes :: "'w env \<Rightarrow> 'w Destination \<Rightarrow> json \<Rightarrow> json \<Rightarrow> bool" where
  "executes env d subscription event =
     (subscription \<noteq> JNull \<and>
      validate env (member subscription ''subscribe'') event = Inr True \<and>
      (case partnerActions_get d (actionSlug_of subscription) of
         Own action \<Rightarrow> True
       | _ \<Rightarrow> False))"

section \<open>A concrete environment\<close>

text \<open>
  To evaluate the runtime on concrete inputs the collaborators need concrete stand-ins.
  \<open>parse_JSON\<close> reads the JSON texts of the subset the datatype holds (integers; in
  strings the escaped double quote, backslash and slash) and rejects every other text.
  The members of an object are kept in the order of the text, and the nesting depth is
  bounded by the length of the text.
\<close>

definition dq :: char where
  "dq = CHR 0x22"

definition is_ws :: "char \<Rightarrow> bool" where
  "is_ws c = (c = CHR '' '' \<or> c = CHR 0x09 \<or> c = CHR 0x0A \<or> c = CHR 0x0D)"

definition skip_ws :: "string \<Rightarrow> string" where
  "skip_ws s = dropWhile is_ws s"

definition strip_prefix :: "string \<Rightarrow> string \<Rightarrow> string option" where
  "strip_prefix p s = (if take (length p) s = p then Some (drop (length p) s) else None)"

fun parse_string_body :: "string \<Rightarrow> (string \<times> string) option" where
  "parse_string_body [] = None"
| "parse_string_body (c # cs) =
     (if c = dq then Some ([], cs)
      else if c = CHR 0x5C then
        (case cs of
           [] \<Rightarrow> None
         | e # cs' \<Rightarrow>
             if e = dq \<or> e = CHR 0x5C \<or> e = CHR ''/'' then
               (case parse_string_body cs' of
                  None \<Rightarrow> None
                | Some (str, r) \<Rightarrow> Some (e # str, r))
             else None)
      else if (of_char c :: nat) < 32 then None
      else
        (case parse_string_body cs of
           None \<Rightarrow> None
         | Some (str, r) \<Rightarrow> Some (c # str, r)))"

definition is_digit :: "char \<Rightarrow> bool" where
  "is_digit c = (48 \<le> (of_char c :: nat) \<and> (of_char c :: nat) \<le> 57)"

definition digits_value :: "string \<Rightarrow> int" where
  "digits_value ds = foldl (\<lambda>a c. 10 * a + (int (of_char c) - 48)) 0 ds"

definition read_digits :: "string \<Rightarrow> (int \<times> string) option" where
  "read_digits s =
     (case takeWhile is_digit s of
        [] \<Rightarrow> None
      | d # ds \<Rightarrow>
          if d = CHR ''0'' \<and> ds \<noteq> [] then None
          else Some (digits_value (d # ds), dropWhile is_digit s))"

definition parse_number :: "string \<Rightarrow> (json \<times> string) option" where
  "parse_number s =
     (case strip_prefix ''-'' s of
        Some r \<Rightarrow> (case read_digits r of None \<Rightarrow> None | Some (i, r') \<Rightarrow> Some (JNum (- i), r'))
      | None \<Rightarrow> (case read_digits s of None \<Rightarrow> None | Some (i, r') \<Rightarrow> Some (JNum i, r')))"

text \<open>Setting a member keeps the place of a key that is already there and replaces its
  value, as an assignment to a property does.\<close>

fun set_member :: "string \<Rightarrow> json \<Rightarrow> (string \<times> json) list \<Rightarrow> (string \<times> json) list" where
  "set_member k v [] = [(k, v)]"
| "set_member k v ((k', v') # kvs) =
     (if k' = k then (k, v) # kvs else (k', v') # set_member k v kvs)"

fun parse_value :: "nat \<Rightarrow> string \<Rightarrow> (json \<times> string) option"
  and parse_elements :: "nat \<Rightarrow> json list \<Rightarrow> string \<Rightarrow> (json list \<times> string) option"
  and parse_members ::
    "nat \<Rightarrow> (string \<times> json) list \<Rightarrow> string \<Rightarrow> ((string \<times> json) list \<times> string) option" where
  "parse_value 0 s = None"
| "parse_value (Suc n) s =
     (case strip_prefix ''null'' s of Some r \<Rightarrow> Some (JNull, r) | None \<Rightarrow>
      case strip_prefix ''true'' s of Some r \<Rightarrow> Some (JBool True, r) | None \<Rightarrow>
      case strip_prefix ''false'' s of Some r \<Rightarrow> Some (JBool False, r) | None \<Rightarrow>
      case strip_prefix [dq] s of
        Some r \<Rightarrow>
          (case parse_string_body r of None \<Rightarrow> None | Some (str, r') \<Rightarrow> Some (JStr str, r'))
      | None \<Rightarrow>
      case strip_prefix ''['' s of
        Some r \<Rightarrow>
          (case strip_prefix '']'' (skip_ws r) of
             Some r' \<Rightarrow> Some (JArr [], r')
           | None \<Rightarrow>
               (case parse_elements n [] r of
                  None \<Rightarrow> None
                | Some (xs, r') \<Rightarrow> Some (JArr xs, r')))
      | None \<Rightarrow>
      case strip_prefix ''{'' s of
        Some r \<Rightarrow>
          (case strip_prefix ''}'' (skip_ws r) of
             Some r' \<Rightarrow> Some (JObj [], r')
           | None \<Rightarrow>
               (case parse_members n [] r of
                  None \<Rightarrow> None
                | Some (kvs, r') \<Rightarrow> Some (JObj kvs, r')))
      | None \<Rightarrow> parse_number s)"
| "parse_elements 0 acc s = None"
| "parse_elements (Suc n) acc s =
     (case parse_value n (skip_ws s) of
        None \<Rightarrow> None
      | Some (v, r) \<Rightarrow>
          (case strip_prefix '','' (skip_ws r) of
             Some r' \<Rightarrow> parse_elements n (acc @ [v]) r'
           | None \<Rightarrow>
               (case strip_prefix '']'' (skip_ws r) of
                  Some r' \<Rightarrow> Some (acc @ [v], r')
                | None \<Rightarrow> None)))"
| "parse_members 0 acc s = None"
| "parse_members (Suc n) acc s =
     (case strip_prefix [dq] (skip_ws s) of
        None \<Rightarrow> None
      | Some r \<Rightarrow>
          (case parse_string_body r of
             None \<Rightarrow> None
           | Some (k, r1) \<Rightarrow>
               (case strip_prefix '':'' (skip_ws r1) of
                  None \<Rightarrow> None
                | Some r2 \<Rightarrow>
                    (case parse_value n (skip_ws r2) of
                       None \<Rightarrow> None
                     | Some (v, r3) \<Rightarrow>
                         (case strip_prefix '','' (skip_ws r3) of
                            Some r4 \<Rightarrow> parse_members n (set_member k v acc) r4
                          | None \<Rightarrow>
                              (case strip_prefix ''}'' (skip_ws r3) of
                                 Some r4 \<Rightarrow> Some (set_member k v acc, r4)
                               | None \<Rightarrow> None))))))"

definition parse_JSON :: "string \<Rightarrow> error + json" where
  "parse_JSON s =
     (case parse_value (Suc (length s)) (skip_ws s) of
        None \<Rightarrow> Inl (SyntaxError ''Unexpected token'')
      | Some (v, r) \<Rightarrow>
          if skip_ws r = [] then Inr v else Inl (SyntaxError ''Unexpected token''))"

text \<open>A predicate evaluator that understands the one form \<open>type = "..."\<close>.\<close>

definition demo_validate :: "json option \<Rightarrow> json \<Rightarrow> error + bool" where
  "demo_validate subscribe event =
     (case subscribe of
        Some (JStr p) \<Rightarrow>
          (case member event ''type'' of
             Some (JStr t) \<Rightarrow> Inr (p = ''type = '' @ [dq] @ t @ [dq])
           | _ \<Rightarrow> Inr False)
      | _ \<Rightarrow> Inl (Error ''invalid subscription''))"

text \<open>A validation step that checks the keys listed under \<open>required\<close> in the schema.\<close>

definition demo_executeStep ::
  "string \<Rightarrow> string \<Rightarrow> JSONObject \<Rightarrow> ExecuteInput \<Rightarrow> error + StepResult" where
  "demo_executeStep prefix field schema input =
     (case map_of schema ''required'' of
        Some (JArr keys) \<Rightarrow>
          if list_all (\<lambda>k. case k of JStr key \<Rightarrow> map_of (ei_settings input) key \<noteq> None | _ \<Rightarrow> True) keys
          then Inr \<lparr>sr_output = JNull\<rparr>
          else Inl (ValidationError (prefix @ field @ '' is invalid''))
      | _ \<Rightarrow> Inr \<lparr>sr_output = JNull\<rparr>)"

text \<open>The world is a counter of the requests sent, which also serves as the clock.\<close>

definition demo_env :: "nat env" where
  "demo_env =
     \<lparr>validate = demo_validate, JSON_parse = parse_JSON, time = int,
      duration = (\<lambda>start stop. stop - start), Validate_executeStep = demo_executeStep\<rparr>"

definition demo_trackEvent :: "nat Action" where
  "demo_trackEvent input w = (Inr ([\<lparr>sr_output = ei_payload input\<rparr>], input), Suc w)"

definition demo_failing :: "nat Action" where
  "demo_failing input w = (Inl (RequestError ''timeout''), Suc w)"

text \<open>An action that answers with the settings it was given.\<close>

definition demo_echo :: "nat Action" where
  "demo_echo input w = (Inr ([\<lparr>sr_output = JObj (ei_settings input)\<rparr>], input), Suc w)"

definition demo_extension :: Extension where
  "demo_extension input =
     Inr (JObj [(''headers'', JObj [(''x-region'',
       (case map_of (ei_settings input) ''region'' of Some v \<Rightarrow> v | None \<Rightarrow> JNull))])])"

definition demo_probe :: "Request \<Rightarrow> JSONObject \<Rightarrow> nat \<Rightarrow> (error + json) \<times> nat" where
  "demo_probe request settings w =
     (if map_of settings ''apiKey'' = Some (JStr ''secret'') then (Inr (JStr ''ok''), Suc w)
      else (Inl (RequestError ''401 Unauthorized''), Suc w))"

definition demo_destination :: "nat Destination" where
  "demo_destination =
     (apiKeyAuth
        (validateSettings
          (extendRequest (new_Destination \<lparr>name = ''demo'', defaultSubscriptions = []\<rparr>)
            [demo_extension])
          [(''required'', JArr [JStr ''apiKey''])])
        demo_probe)
     \<lparr>partnerActions :=
        [''trackEvent'' \<mapsto> demo_trackEvent, ''failing'' \<mapsto> demo_failing, ''echo'' \<mapsto> demo_echo]\<rparr>"

definition demo_state :: "nat state" where
  "demo_state = \<lparr>ctx = \<lparr>ctx_subscriptions = []\<rparr>, world = 0, executed = []\<rparr>"

definition demo_event :: json where
  "demo_event = JObj [(''type'', JStr ''track''), (''event'', JStr ''Signed Up'')]"

definition subscribe_to :: "string \<Rightarrow> string \<Rightarrow> json" where
  "subscribe_to type slug =
     JObj [(''partnerAction'', JStr slug), (''subscribe'', JStr (''type = '' @ [dq] @ type @ [dq]))]"

definition demo_settings :: "json \<Rightarrow> JSONObject" where
  "demo_settings subscriptions =
     [(''apiKey'', JStr ''secret''), (''subscriptions'', subscriptions), (''region'', JStr ''eu'')]"

text \<open>The JSON text of a list with one subscription, of track events to \<open>trackEvent\<close>.\<close>

definition demo_subscriptions_text :: string where
  "demo_subscriptions_text =
     ''[{'' @ [dq] @ ''partnerAction'' @ [dq] @ '': '' @ [dq] @ ''trackEvent'' @ [dq] @ '', '' @
     [dq] @ ''subscribe'' @ [dq] @ '': '' @ [dq] @ ''type = '' @ [CHR 0x5C, dq] @ ''track'' @
     [CHR 0x5C, dq] @ [dq] @ ''}]''"

definition demo_three :: "json list" where
  "demo_three =
     [subscribe_to ''track'' ''trackEvent'', subscribe_to ''page'' ''trackEvent'',
      subscribe_to ''track'' ''trackEvent'']"

definition demo_mixed :: "json list" where
  "demo_mixed =
     [subscribe_to ''track'' ''trackEvent'', subscribe_to ''track'' ''failing'',
      subscribe_to ''track'' ''missing'']"

section \<open>When an attempt is instrumented\<close>

text \<open>An attempt executes its action and the action resolves: the subscription is an
  object whose predicate matches, its slug names a registered action, and that action,
  run on the attempt's input in the current world, does not reject.\<close>

definition executes_and_resolves ::
  "'w env \<Rightarrow> 'w Destination \<Rightarrow> json \<Rightarrow> json \<Rightarrow> JSONObject \<Rightarrow> 'w state \<Rightarrow> bool" where
  "executes_and_resolves env d subscription event settings st =
     (subscription \<noteq> JNull \<and>
      validate env (member subscription ''subscribe'') event = Inr True \<and>
      (case partnerActions_get d (actionSlug_of subscription) of
         Own action \<Rightarrow>
           \<not> isl (fst (action (input_of subscription event settings) (world st)))
       | _ \<Rightarrow> False))"

section \<open>The branches of a subscription attempt\<close>

lemma onSubscription_null:
  "onSubscription env d JNull event settings priv st = (Inl TypeError, st)"
  by (simp add: onSubscription_def onSubscription_start_def)

lemma onSubscription_validate_error:
  "subscription \<noteq> JNull \<Longrightarrow> validate env (member subscription ''subscribe'') event = Inl e \<Longrightarrow>
   onSubscription env d subscription event settings priv st = (Inl e, st)"
  by (simp add: onSubscription_def onSubscription_start_def)

lemma onSubscription_not_subscribed:
  "subscription \<noteq> JNull \<Longrightarrow> validate env (member subscription ''subscribe'') event = Inr False \<Longrightarrow>
   onSubscription env d subscription event settings priv st =
     (Inr [\<lparr>sr_output = JStr ''not subscribed''\<rparr>], st)"
  by (simp add: onSubscription_def onSubscription_start_def)

lemma onSubscription_undefined:
  "subscription \<noteq> JNull \<Longrightarrow> validate env (member subscription ''subscribe'') event = Inr True \<Longrightarrow>
   partnerActions_get d (actionSlug_of subscription) = Undefined \<Longrightarrow>
   onSubscription env d subscription event settings priv st =
     (Inl (BadRequest (not_a_valid_action (actionSlug_of subscription))), st)"
  by (simp add: onSubscription_def onSubscription_start_def actionSlug_of_def)

lemma onSubscription_inherited:
  "subscription \<noteq> JNull \<Longrightarrow> validate env (member subscription ''subscribe'') event = Inr True \<Longrightarrow>
   partnerActions_get d (actionSlug_of subscription) = Inherited \<Longrightarrow>
   onSubscription env d subscription event settings priv st = (Inl TypeError, st)"
  by (simp add: onSubscription_def onSubscription_start_def actionSlug_of_def)

lemma onSubscription_rejected:
  "subscription \<noteq> JNull \<Longrightarrow> validate env (member subscription ''subscribe'') event = Inr True \<Longrightarrow>
   partnerActions_get d (actionSlug_of subscription) = Own action \<Longrightarrow>
   action (input_of subscription event settings) (world st) = (Inl e, w) \<Longrightarrow>
   onSubscription env d subscription event settings priv st =
     (Inl e, st\<lparr>world := w,
        executed := executed st @ [(actionSlug_of subscription, input_of subscription event settings)]\<rparr>)"
  by (simp add: onSubscription_def onSubscription_start_def actionSlug_of_def input_of_def)

lemma onSubscription_resolved:
  "subscription \<noteq> JNull \<Longrightarrow> validate env (member subscription ''subscribe'') event = Inr True \<Longrightarrow>
   partnerActions_get d (actionSlug_of subscription) = Own action \<Longrightarrow>
   action (input_of subscription event settings) (world st) = (Inr (results, input'), w) \<Longrightarrow>
   onSubscription env d subscription event settings priv st =
     (Inr results,
      st\<lparr>world := w,
         executed := executed st @ [(actionSlug_of subscription, input_of subscription event settings)],
         ctx := (ctx st)\<lparr>ctx_subscriptions := ctx_subscriptions (ctx st) @
           [\<lparr>sub_duration = duration env (time env (world st)) (time env w),
             sub_destination = name (config d),
             sub_action = actionSlug_of subscription,
             sub_input = input'\<lparr>ei_settings := redactSettings settings priv\<rparr>,
             sub_output = results\<rparr>]\<rparr>\<rparr>)"
  by (simp add: onSubscription_def onSubscription_start_def actionSlug_of_def input_of_def
      instrumentSubscription_def append_context_def Let_def)

text \<open>
  What one attempt does to the state: the Context's log and the list of executions only
  grow; the log grows by one entry exactly when the attempt executes its action and the
  action resolves; every new entry carries the redacted settings and every execution was
  given the settings unredacted.
\<close>

lemma onSubscription_frame:
  assumes "onSubscription env d subscription event settings priv st = (r, st')"
  shows "\<exists>new ran.
           ctx_subscriptions (ctx st') = ctx_subscriptions (ctx st) @ new \<and>
           executed st' = executed st @ ran \<and>
           length new = (if executes_and_resolves env d subscription event settings st then 1 else 0) \<and>
           (\<forall>e \<in> set new. ei_settings (sub_input e) = redactSettings settings priv) \<and>
           (\<forall>c \<in> set ran. ei_settings (snd c) = settings)"
proof (cases "subscription = JNull")
  case True
  with assms show ?thesis by (simp add: onSubscription_null executes_and_resolves_def)
next
  case nn: False
  show ?thesis
  proof (cases "validate env (member subscription ''subscribe'') event")
    case (Inl e)
    with nn assms show ?thesis
      by (simp add: onSubscription_validate_error executes_and_resolves_def)
  next
    case (Inr b)
    show ?thesis
    proof (cases b)
      case False
      with nn Inr assms show ?thesis
        by (simp add: onSubscription_not_subscribed executes_and_resolves_def)
    next
      case True
      with Inr have v: "validate env (member subscription ''subscribe'') event = Inr True" by simp
      show ?thesis
      proof (cases "partnerActions_get d (actionSlug_of subscription)")
        case Undefined
        with nn v assms show ?thesis
          by (simp add: onSubscription_undefined executes_and_resolves_def)
      next
        case Inherited
        with nn v assms show ?thesis
          by (simp add: onSubscription_inherited executes_and_resolves_def)
      next
        case (Own action)
        obtain outcome w where a: "action (input_of subscription event settings) (world st) = (outcome, w)"
          by (cases "action (input_of subscription event settings) (world st)")
        show ?thesis
        proof (cases outcome)
          case (Inl e)
          from onSubscription_rejected[OF nn v Own a[unfolded Inl]] assms nn v Own a Inl
          show ?thesis by (auto simp: input_of_def executes_and_resolves_def)
        next
          case (Inr p)
          obtain results input' where p: "p = (results, input')" by (cases p)
          from onSubscription_resolved[OF nn v Own a[unfolded Inr p]] assms nn v Own a Inr
          show ?thesis by (auto simp: input_of_def executes_and_resolves_def)
        qed
      qed
    qed
  qed
qed

section \<open>Tasks\<close>

lemma start_at_once:
  "at_once (onSubscription_start env d s event settings w) \<longleftrightarrow> \<not> executes env d s event"
  by (simp add: onSubscription_start_def executes_def actionSlug_of_def Let_def
      split: sum.splits property.splits)

lemma start_awaiting:
  assumes "executes env d s event"
  shows "\<exists>action. partnerActions_get d (actionSlug_of s) = Own action \<and>
           onSubscription_start env d s event settings w =
             Awaiting (actionSlug_of s) action (time env w) (input_of s event settings)"
  using assms
  by (auto simp: onSubscription_start_def executes_def actionSlug_of_def input_of_def Let_def
      split: sum.splits property.splits)

text \<open>A task whose predicate does not match has settled when it is started, and finishing it
  changes nothing.\<close>

lemma start_not_subscribed:
  assumes "subscription \<noteq> JNull"
    and "validate env (member subscription ''subscribe'') event = Inr False"
  shows "onSubscription_start env d subscription event settings w =
           Settled (Inr [\<lparr>sr_output = JStr ''not subscribed''\<rparr>])"
    and "onSubscription_finish env d settings priv
           (onSubscription_start env d subscription event settings w) st =
           (Inr [\<lparr>sr_output = JStr ''not subscribed''\<rparr>], st)"
  using assms by (simp_all add: onSubscription_start_def)

lemma finish_trace:
  assumes "onSubscription_finish env d settings priv
             (onSubscription_start env d s event settings w) st = (r, st')"
  shows "(\<exists>new. ctx_subscriptions (ctx st') = ctx_subscriptions (ctx st) @ new \<and>
             map sub_output new = (if executes env d s event \<and> \<not> isl r then [projr r] else []) \<and>
             (\<forall>e \<in> set new. ei_settings (sub_input e) = redactSettings settings priv)) \<and>
         executed st' = executed st @
           (if executes env d s event then [(actionSlug_of s, input_of s event settings)] else [])"
proof (cases "executes env d s event")
  case False
  then have "at_once (onSubscription_start env d s event settings w)"
    by (simp add: start_at_once)
  then obtain r0 where "onSubscription_start env d s event settings w = Settled r0"
    by (cases "onSubscription_start env d s event settings w") auto
  with assms False show ?thesis by simp
next
  case True
  from start_awaiting [OF True] obtain action where
    t: "onSubscription_start env d s event settings w =
          Awaiting (actionSlug_of s) action (time env w) (input_of s event settings)"
    by blast
  obtain outcome w' where a: "action (input_of s event settings) (world st) = (outcome, w')"
    by (cases "action (input_of s event settings) (world st)")
  show ?thesis
  proof (cases outcome)
    case (Inl e)
    with assms t a True show ?thesis by (auto simp: Let_def)
  next
    case (Inr p)
    obtain results input' where p: "p = (results, input')" by (cases p)
    with assms t a True Inr show ?thesis
      by (auto simp: Let_def instrumentSubscription_def append_context_def)
  qed
qed

text \<open>A task that is finished in the state \<open>st\<close>, whenever it was started, appends one
  entry to the log exactly when it executes its action and the action resolves there.\<close>

lemma finish_instrumented:
  assumes "onSubscription_finish env d settings priv
             (onSubscription_start env d s event settings w) st = (r, st')"
  shows "\<exists>new. ctx_subscriptions (ctx st') = ctx_subscriptions (ctx st) @ new \<and>
           length new = (if executes_and_resolves env d s event settings st then 1 else 0)"
proof (cases "executes env d s event")
  case False
  then have "at_once (onSubscription_start env d s event settings w)"
    by (simp add: start_at_once)
  then obtain r0 where "onSubscription_start env d s event settings w = Settled r0"
    by (cases "onSubscription_start env d s event settings w") auto
  moreover from False have "\<not> executes_and_resolves env d s event settings st"
    by (auto simp: executes_def executes_and_resolves_def split: property.splits)
  ultimately show ?thesis using assms by simp
next
  case True
  from start_awaiting [OF True] obtain action where
    own: "partnerActions_get d (actionSlug_of s) = Own action" and
    t: "onSubscription_start env d s event settings w =
          Awaiting (actionSlug_of s) action (time env w) (input_of s event settings)"
    by blast
  from True own have res: "executes_and_resolves env d s event settings st \<longleftrightarrow>
      \<not> isl (fst (action (input_of s event settings) (world st)))"
    by (simp add: executes_def executes_and_resolves_def)
  obtain outcome w' where a: "action (input_of s event settings) (world st) = (outcome, w')"
    by (cases "action (input_of s event settings) (world st)")
  show ?thesis
  proof (cases outcome)
    case (Inl e)
    with assms t a res show ?thesis by (auto simp: Let_def)
  next
    case (Inr p)
    obtain results input' where p: "p = (results, input')" by (cases p)
    with assms t a res Inr show ?thesis
      by (auto simp: Let_def instrumentSubscription_def append_context_def)
  qed
qed

lemma settle_tasks_trace:
  assumes "settle_tasks env d settings priv
             (map (\<lambda>s. onSubscription_start env d s event settings w) subs) order st = (settled, st')"
    and "\<forall>i \<in> set order. i < length subs"
  shows "map fst settled = order \<and>
         (\<exists>new. ctx_subscriptions (ctx st') = ctx_subscriptions (ctx st) @ new \<and>
            map sub_output new =
              map (\<lambda>p. projr (snd p))
                (filter (\<lambda>p. executes env d (subs ! fst p) event \<and> \<not> isl (snd p)) settled) \<and>
            (\<forall>e \<in> set new. ei_settings (sub_input e) = redactSettings settings priv)) \<and>
         executed st' = executed st @
           map (\<lambda>i. (actionSlug_of (subs ! i), input_of (subs ! i) event settings))
             (filter (\<lambda>i. executes env d (subs ! i) event) order)"
  using assms
proof (induction order arbitrary: st settled st')
  case Nil
  then show ?case by simp
next
  case (Cons i order)
  let ?ps = "map (\<lambda>s. onSubscription_start env d s event settings w) subs"
  from Cons.prems(2) have i: "i < length subs" by simp
  then have nth: "?ps ! i = onSubscription_start env d (subs ! i) event settings w" by simp
  obtain r st1 where one: "onSubscription_finish env d settings priv (?ps ! i) st = (r, st1)"
    by (cases "onSubscription_finish env d settings priv (?ps ! i) st")
  obtain rs st2 where rest: "settle_tasks env d settings priv ?ps order st1 = (rs, st2)"
    by (cases "settle_tasks env d settings priv ?ps order st1")
  from Cons.prems(1) one rest have res: "settled = (i, r) # rs" "st' = st2" by simp_all
  from finish_trace [OF one [unfolded nth]] obtain new1 where f1:
    "ctx_subscriptions (ctx st1) = ctx_subscriptions (ctx st) @ new1"
    "map sub_output new1 = (if executes env d (subs ! i) event \<and> \<not> isl r then [projr r] else [])"
    "\<forall>e \<in> set new1. ei_settings (sub_input e) = redactSettings settings priv"
    "executed st1 = executed st @
       (if executes env d (subs ! i) event
        then [(actionSlug_of (subs ! i), input_of (subs ! i) event settings)] else [])"
    by blast
  from Cons.prems(2) have "\<forall>i \<in> set order. i < length subs" by simp
  from Cons.IH [OF rest this] have ih:
    "map fst rs = order \<and>
     (\<exists>new. ctx_subscriptions (ctx st2) = ctx_subscriptions (ctx st1) @ new \<and>
        map sub_output new =
          map (\<lambda>p. projr (snd p))
            (filter (\<lambda>p. executes env d (subs ! fst p) event \<and> \<not> isl (snd p)) rs) \<and>
        (\<forall>e \<in> set new. ei_settings (sub_input e) = redactSettings settings priv)) \<and>
     executed st2 = executed st1 @
       map (\<lambda>i. (actionSlug_of (subs ! i), input_of (subs ! i) event settings))
         (filter (\<lambda>i. executes env d (subs ! i) event) order)" .
  from ih [THEN conjunct2, THEN conjunct1] obtain new2 where n2:
    "ctx_subscriptions (ctx st2) = ctx_subscriptions (ctx st1) @ new2 \<and>
       map sub_output new2 =
         map (\<lambda>p. projr (snd p))
           (filter (\<lambda>p. executes env d (subs ! fst p) event \<and> \<not> isl (snd p)) rs) \<and>
       (\<forall>e \<in> set new2. ei_settings (sub_input e) = redactSettings settings priv)" ..
  from ih n2 have f2:
    "map fst rs = order"
    "ctx_subscriptions (ctx st2) = ctx_subscriptions (ctx st1) @ new2"
    "map sub_output new2 =
       map (\<lambda>p. projr (snd p))
         (filter (\<lambda>p. executes env d (subs ! fst p) event \<and> \<not> isl (snd p)) rs)"
    "\<forall>e \<in> set new2. ei_settings (sub_input e) = redactSettings settings priv"
    "executed st2 = executed st1 @
       map (\<lambda>i. (actionSlug_of (subs ! i), input_of (subs ! i) event settings))
         (filter (\<lambda>i. executes env d (subs ! i) event) order)"
    by simp_all
  have a: "map fst settled = i # order" by (simp add: res f2)
  have b: "ctx_subscriptions (ctx st') = ctx_subscriptions (ctx st) @ (new1 @ new2)"
    by (simp add: res f1 f2)
  have c: "map sub_output (new1 @ new2) =
      map (\<lambda>p. projr (snd p))
        (filter (\<lambda>p. executes env d (subs ! fst p) event \<and> \<not> isl (snd p)) settled)"
    by (simp add: res f1 f2)
  have e: "\<forall>e \<in> set (new1 @ new2). ei_settings (sub_input e) = redactSettings settings priv"
    using f1 f2 by auto
  have f: "executed st' = executed st @
      map (\<lambda>i. (actionSlug_of (subs ! i), input_of (subs ! i) event settings))
        (filter (\<lambda>i. executes env d (subs ! i) event) (i # order))"
    by (simp add: res f1 f2)
  show ?case
  proof (intro conjI)
    show "map fst settled = i # order" by (rule a)
    show "\<exists>new. ctx_subscriptions (ctx st') = ctx_subscriptions (ctx st) @ new \<and>
            map sub_output new =
              map (\<lambda>p. projr (snd p))
                (filter (\<lambda>p. executes env d (subs ! fst p) event \<and> \<not> isl (snd p)) settled) \<and>
            (\<forall>e \<in> set new. ei_settings (sub_input e) = redactSettings settings priv)"
      by (intro exI [of _ "new1 @ new2"] conjI) (rule b, rule c, rule e)
    show "executed st' = executed st @
      map (\<lambda>i. (actionSlug_of (subs ! i), input_of (subs ! i) event settings))
        (filter (\<lambda>i. executes env d (subs ! i) event) (i # order))"
      by (rule f)
  qed
qed

section \<open>Schedules and Promise.all\<close>

lemma schedule_set: "set (schedule completion n) = {0..<n}"
  by (simp add: schedule_def)

lemma schedule_distinct: "distinct (schedule completion n)"
  by (simp add: schedule_def)

lemma position_distinct:
  assumes "distinct xs" and "i < length xs"
  shows "length (takeWhile (\<lambda>y. y \<noteq> xs ! i) xs) = i"
  using assms
proof (induction xs arbitrary: i)
  case Nil
  then show ?case by simp
next
  case (Cons x xs)
  show ?case
  proof (cases i)
    case 0
    then show ?thesis by simp
  next
    case (Suc j)
    with Cons.prems have "x \<noteq> xs ! j" and "j < length xs" and "distinct xs" by auto
    with Cons.IH [of j] Suc show ?thesis by simp
  qed
qed

lemma positions_sorted:
  assumes "distinct xs"
  shows "map (\<lambda>x. length (takeWhile (\<lambda>y. y \<noteq> x) xs)) xs = [0..<length xs]"
  by (rule nth_equalityI) (simp_all add: position_distinct [OF assms])

text \<open>Any order in which \<open>n\<close> tasks can settle is the schedule of a completion function:
  the position of the task in that order.\<close>

lemma every_order_is_a_schedule:
  assumes "distinct order" and "set order = {0..<n}"
  shows "\<exists>completion. schedule completion n = order"
proof -
  let ?f = "\<lambda>i. length (takeWhile (\<lambda>j. j \<noteq> i) order)"
  have m: "mset [0..<n] = mset order"
    using assms by (metis distinct_upt set_eq_iff_mset_eq_distinct set_upt)
  have inj: "inj_on ?f (set [0..<n])"
  proof (rule inj_onI)
    fix a b assume a: "a \<in> set [0..<n]" and b: "b \<in> set [0..<n]" and eq: "?f a = ?f b"
    from a assms obtain i where i: "i < length order" "order ! i = a"
      by (metis in_set_conv_nth set_upt)
    from b assms obtain j where j: "j < length order" "order ! j = b"
      by (metis in_set_conv_nth set_upt)
    from position_distinct [OF assms(1) i(1)] position_distinct [OF assms(1) j(1)] eq i j
    show "a = b" by simp
  qed
  have s: "sorted (map ?f order)"
    by (simp add: positions_sorted [OF assms(1)])
  have "sort_key ?f [0..<n] = order"
    by (rule sort_key_inj_key_eq [OF m inj s])
  then show ?thesis unfolding schedule_def by blast
qed

lemma arrival_set:
  assumes "set order = {0..<length promises}"
  shows "set (arrival promises order) = {0..<length promises}"
proof -
  have "set (arrival promises order) =
          {i \<in> {0..<length promises}. at_once (promises ! i)} \<union>
          {i \<in> {0..<length promises}. \<not> at_once (promises ! i)}"
    unfolding arrival_def set_append set_filter assms by simp
  then show ?thesis by blast
qed

lemma arrival_distinct:
  assumes "distinct order"
  shows "distinct (arrival promises order)"
proof -
  have "set (filter (\<lambda>i. at_once (promises ! i)) [0..<length promises]) \<inter>
        set (filter (\<lambda>i. \<not> at_once (promises ! i)) order) = {}"
    unfolding set_filter by blast
  with assms show ?thesis
    unfolding arrival_def by (simp only: distinct_append distinct_filter distinct_upt simp_thms)
qed

text \<open>What a run of the tasks of an event leaves behind.\<close>

lemma settle_trace:
  assumes "settle env d subs event settings priv (schedule completion (length subs)) st = (settled, st')"
  shows "set (map fst settled) = {0..<length subs}"
    and "distinct (map fst settled)"
    and "\<exists>new. ctx_subscriptions (ctx st') = ctx_subscriptions (ctx st) @ new \<and>
            map sub_output new =
              map (\<lambda>p. projr (snd p))
                (filter (\<lambda>p. executes env d (subs ! fst p) event \<and> \<not> isl (snd p)) settled) \<and>
            (\<forall>e \<in> set new. ei_settings (sub_input e) = redactSettings settings priv)"
    and "executed st' = executed st @
           map (\<lambda>i. (actionSlug_of (subs ! i), input_of (subs ! i) event settings))
             (filter (\<lambda>i. executes env d (subs ! i) event) (map fst settled))"
proof -
  let ?ps = "map (\<lambda>s. onSubscription_start env d s event settings (world st)) subs"
  let ?arr = "arrival ?ps (schedule completion (length subs))"
  from assms have run: "settle_tasks env d settings priv ?ps ?arr st = (settled, st')"
    by (simp add: settle_def Let_def)
  have s: "set ?arr = {0..<length subs}"
    using arrival_set [of "schedule completion (length subs)" ?ps] by (simp add: schedule_set)
  have dist: "distinct ?arr"
    by (rule arrival_distinct) (rule schedule_distinct)
  from s have bound: "\<forall>i \<in> set ?arr. i < length subs" by simp
  note t = settle_tasks_trace [OF run bound]
  from t [THEN conjunct1] have idx: "map fst settled = ?arr" .
  show "set (map fst settled) = {0..<length subs}" by (simp only: idx s)
  show "distinct (map fst settled)" by (simp only: idx dist)
  from t [THEN conjunct2, THEN conjunct1]
  show "\<exists>new. ctx_subscriptions (ctx st') = ctx_subscriptions (ctx st) @ new \<and>
            map sub_output new =
              map (\<lambda>p. projr (snd p))
                (filter (\<lambda>p. executes env d (subs ! fst p) event \<and> \<not> isl (snd p)) settled) \<and>
            (\<forall>e \<in> set new. ei_settings (sub_input e) = redactSettings settings priv)" .
  from t [THEN conjunct2, THEN conjunct2] show "executed st' = executed st @
           map (\<lambda>i. (actionSlug_of (subs ! i), input_of (subs ! i) event settings))
             (filter (\<lambda>i. executes env d (subs ! i) event) (map fst settled))"
    by (simp only: idx)
qed

lemma Promise_all_from_Inr:
  "Promise_all_from vals n settled = Inr rs \<longleftrightarrow>
     (\<forall>p \<in> set settled. \<not> isl (snd p)) \<and>
     rs = List.map_filter
            (\<lambda>i. case map_of (rev settled) i of Some r \<Rightarrow> Some (projr r) | None \<Rightarrow> vals i) [0..<n]"
proof (induction vals n settled rule: Promise_all_from.induct)
  case (1 vals n)
  then show ?case by auto
next
  case (2 vals n i e settled)
  then show ?case by auto
next
  case (3 vals n i v settled)
  have eq: "(\<lambda>j. case map_of (rev settled) j of Some r \<Rightarrow> Some (projr r) | None \<Rightarrow> (vals(i \<mapsto> v)) j)
      = (\<lambda>j. case map_of (rev ((i, Inr v) # settled)) j of Some r \<Rightarrow> Some (projr r) | None \<Rightarrow> vals j)"
    by (auto simp: fun_eq_iff map_add_def split: option.splits)
  have step: "Promise_all_from vals n ((i, Inr v) # settled) = Promise_all_from (vals(i \<mapsto> v)) n settled"
    by simp
  have ball: "(\<forall>p \<in> set ((i, Inr v) # settled). \<not> isl (snd p)) \<longleftrightarrow> (\<forall>p \<in> set settled. \<not> isl (snd p))"
    by simp
  show ?case by (simp only: step ball 3 eq)
qed

lemma Promise_all_from_first_rejection:
  assumes "\<forall>p \<in> set pre. \<not> isl (snd p)"
  shows "Promise_all_from vals n (pre @ (i, Inl e) # post) = Inl e"
  using assms
proof (induction pre arbitrary: vals)
  case Nil
  then show ?case by simp
next
  case (Cons p pre)
  obtain j r where p: "p = (j, r)" by (cases p)
  with Cons.prems obtain v where r: "r = Inr v" by (cases r) auto
  from Cons show ?case by (simp add: p r)
qed

lemma map_filter_all_Some:
  assumes "\<And>i. i \<in> set xs \<Longrightarrow> f i = Some (g i)"
  shows "List.map_filter f xs = map g xs"
  using assms by (induction xs) (simp_all add: List.map_filter_simps)

text \<open>When nothing rejects and every index settles once, the result holds the values in
  index order.\<close>

lemma Promise_all_resolves:
  assumes ok: "\<forall>p \<in> set settled. \<not> isl (snd p)"
    and idx: "set (map fst settled) = {0..<n}"
  shows "\<exists>rss. Promise_all n settled = Inr rss \<and> length rss = n \<and>
           (\<forall>i<n. (i, Inr (rss ! i)) \<in> set settled)"
proof -
  define g where "g i = projr (the (map_of (rev settled) i))" for i
  have some: "map_of (rev settled) i = Some (Inr (g i)) \<and> (i, Inr (g i)) \<in> set settled"
    if "i \<in> set [0..<n]" for i
  proof -
    from that idx have "i \<in> fst ` set (rev settled)" by auto
    then obtain r where r: "map_of (rev settled) i = Some r"
      by (metis domD dom_map_of_conv_image_fst)
    then have mem: "(i, r) \<in> set settled" by (auto dest: map_of_SomeD)
    with ok obtain v where "r = Inr v" by (cases r) auto
    with r mem show ?thesis by (simp add: g_def)
  qed
  have "Promise_all n settled = Inr (List.map_filter
      (\<lambda>i. case map_of (rev settled) i of Some r \<Rightarrow> Some (projr r) | None \<Rightarrow> None) [0..<n])"
    unfolding Promise_all_def using ok by (simp add: Promise_all_from_Inr)
  also have "List.map_filter
      (\<lambda>i. case map_of (rev settled) i of Some r \<Rightarrow> Some (projr r) | None \<Rightarrow> None) [0..<n]
      = map g [0..<n]"
    by (rule map_filter_all_Some) (simp add: some)
  finally have res: "Promise_all n settled = Inr (map g [0..<n])" .
  have "\<forall>i<n. (i, Inr (map g [0..<n] ! i)) \<in> set settled"
    using some by simp
  with res show ?thesis by simp
qed

section \<open>The whole event\<close>

lemma onEvent_array:
  assumes "getSubscriptions env settings = Inr (Some (JArr subs))"
    and "settle env d subs event (getDestinationSettings settings) priv
           (schedule completion (length subs)) st = (settled, st')"
  shows "onEvent env d completion event settings priv st =
           (case Promise_all (length subs) settled of
              Inl e \<Rightarrow> (Inl e, st')
            | Inr results \<Rightarrow> (Inr (concat results), st'))"
  using assms by (simp add: onEvent_def)

lemma finish_outcome:
  "fst (onSubscription_finish env d settings priv (onSubscription_start env d s event settings w) st) =
   fst (onSubscription env d s event settings priv st)"
proof (cases "executes env d s event")
  case False
  then have "onSubscription_start env d s event settings w =
             onSubscription_start env d s event settings (world st)"
    by (simp add: onSubscription_start_def executes_def actionSlug_of_def Let_def
        split: sum.splits property.splits)
  then show ?thesis by (simp add: onSubscription_def)
next
  case True
  from start_awaiting [OF True, of settings w] start_awaiting [OF True, of settings "world st"]
  show ?thesis
    by (auto simp: onSubscription_def Let_def split: prod.splits sum.splits)
qed

lemma settle_tasks_outcomes:
  assumes "settle_tasks env d settings priv
             (map (\<lambda>s. onSubscription_start env d s event settings w) subs) order st = (settled, st')"
    and "\<forall>i \<in> set order. i < length subs"
  shows "\<forall>p \<in> set settled. \<exists>s. snd p = fst (onSubscription env d (subs ! fst p) event settings priv s)"
  using assms
proof (induction order arbitrary: st settled st')
  case Nil
  then show ?case by simp
next
  case (Cons i order)
  let ?ps = "map (\<lambda>s. onSubscription_start env d s event settings w) subs"
  from Cons.prems(2) have i: "i < length subs" by simp
  then have nth: "?ps ! i = onSubscription_start env d (subs ! i) event settings w" by simp
  obtain r st1 where one: "onSubscription_finish env d settings priv (?ps ! i) st = (r, st1)"
    by (cases "onSubscription_finish env d settings priv (?ps ! i) st")
  obtain rs st2 where rest: "settle_tasks env d settings priv ?ps order st1 = (rs, st2)"
    by (cases "settle_tasks env d settings priv ?ps order st1")
  from Cons.prems(1) one rest have res: "settled = (i, r) # rs" by simp
  from one have "r = fst (onSubscription env d (subs ! i) event settings priv st)"
    unfolding nth using finish_outcome [of env d settings priv "subs ! i" event w st] by simp
  then have h: "\<exists>s. r = fst (onSubscription env d (subs ! i) event settings priv s)" by blast
  from Cons.prems(2) have "\<forall>i \<in> set order. i < length subs" by simp
  from Cons.IH [OF rest this] h show ?case by (simp add: res)
qed

lemma settle_outcomes:
  assumes "settle env d subs event settings priv (schedule completion (length subs)) st = (settled, st')"
  shows "\<forall>p \<in> set settled. \<exists>s. snd p = fst (onSubscription env d (subs ! fst p) event settings priv s)"
proof -
  let ?ps = "map (\<lambda>s. onSubscription_start env d s event settings (world st)) subs"
  let ?arr = "arrival ?ps (schedule completion (length subs))"
  from assms have run: "settle_tasks env d settings priv ?ps ?arr st = (settled, st')"
    by (simp add: settle_def Let_def)
  have "set ?arr = {0..<length subs}"
    using arrival_set [of "schedule completion (length subs)" ?ps] by (simp add: schedule_set)
  then have bound: "\<forall>i \<in> set ?arr. i < length subs" by simp
  show ?thesis by (rule settle_tasks_outcomes [OF run bound])
qed

lemma onEvent_frame:
  assumes "onEvent env d completion event settings priv st = (r, st')"
  shows "\<exists>new ran.
           ctx_subscriptions (ctx st') = ctx_subscriptions (ctx st) @ new \<and>
           executed st' = executed st @ ran \<and>
           (\<forall>e \<in> set new. ei_settings (sub_input e) =
               redactSettings (getDestinationSettings settings) priv) \<and>
           (\<forall>c \<in> set ran. ei_settings (snd c) = getDestinationSettings settings)"
proof (cases "getSubscriptions env settings")
  case (Inl e)
  with assms show ?thesis by (simp add: onEvent_def)
next
  case (Inr v)
  show ?thesis
  proof (cases "\<exists>subs. v = Some (JArr subs)")
    case False
    have "onEvent env d completion event settings priv st = (Inl TypeError, st)"
    proof (cases v)
      case None
      with Inr show ?thesis by (simp add: onEvent_def)
    next
      case (Some j)
      with Inr False show ?thesis by (cases j) (simp_all add: onEvent_def)
    qed
    with assms show ?thesis by simp
  next
    case True
    then obtain subs where v: "v = Some (JArr subs)" by blast
    obtain settled st1 where run: "settle env d subs event (getDestinationSettings settings) priv
           (schedule completion (length subs)) st = (settled, st1)"
      by (cases "settle env d subs event (getDestinationSettings settings) priv
           (schedule completion (length subs)) st")
    from assms have st': "st' = st1"
      by (simp add: onEvent_array [OF Inr[unfolded v] run] split: sum.splits)
    from settle_trace(3) [OF run] obtain new where new:
      "ctx_subscriptions (ctx st1) = ctx_subscriptions (ctx st) @ new"
      "\<forall>e \<in> set new. ei_settings (sub_input e) =
          redactSettings (getDestinationSettings settings) priv"
      by blast
    let ?ran = "map (\<lambda>i. (actionSlug_of (subs ! i),
                  input_of (subs ! i) event (getDestinationSettings settings)))
                (filter (\<lambda>i. executes env d (subs ! i) event) (map fst settled))"
    have ran: "executed st1 = executed st @ ?ran"
      by (rule settle_trace(4) [OF run])
    have "\<forall>c \<in> set ?ran. ei_settings (snd c) = getDestinationSettings settings"
      by (simp add: input_of_def)
    with new ran show ?thesis unfolding st' by blast
  qed
qed

lemma redactSettings_private:
  "(k, v) \<in> set (redactSettings settings priv) \<Longrightarrow> JStr k \<in> set priv \<Longrightarrow> v = REDACTED"
  by (auto simp: redactSettings_def split: if_splits)

lemma redactSettings_keys: "map fst (redactSettings settings priv) = map fst settings"
  by (induction settings) (auto simp: redactSettings_def)

lemma map_of_getDestinationSettings:
  "map_of (getDestinationSettings settings) k =
     (if k = ''subscriptions'' then None else map_of settings k)"
  by (induction settings) (auto simp: getDestinationSettings_def)

lemma onEvent_at_content:
  "fst (onEvent_at env d completion event a priv st objects) =
   onEvent env d completion event (objects ! a) priv st"
  by (simp add: onEvent_at_def onEvent_def getSubscriptions_at_def getDestinationSettings_at_def
      Let_def split: sum.splits option.splits json.splits prod.splits)

lemma onEvent_at_store:
  "snd (onEvent_at env d completion event a priv st objects) = objects \<or>
   snd (onEvent_at env d completion event a priv st objects) =
     objects @ [getDestinationSettings (objects ! a)]"
  by (simp add: onEvent_at_def getSubscriptions_at_def getDestinationSettings_at_def
      Let_def split: sum.splits option.splits json.splits prod.splits)

section \<open>Failure of one subscription\<close>

text \<open>
  C1 (amended). Let the settings hold a list of subscriptions and let \<open>settled\<close> be the
  outcomes of the subscription tasks in the order in which they reach \<open>Promise.all\<close>. A
  failure inside one subscription's processing makes the call as a whole fail: \<open>onEvent\<close>
  rejects with the error of the first task to fail, and no aggregated list is returned;
  the list is returned only when no task fails. The failure does not keep the other
  subscriptions from completing: every subscription settles exactly once, with the
  outcome of its own attempt; every subscription that reaches its action has the action
  executed; and every executed action that resolves is instrumented with its results.
\<close>

theorem onEvent_fails_with_first_failure:
  assumes subs: "getSubscriptions env settings = Inr (Some (JArr subs))"
    and run: "settle env d subs event (getDestinationSettings settings) priv
           (schedule completion (length subs)) st = (settled, st')"
  shows "(\<forall>pre i e post. settled = pre @ (i, Inl e) # post \<and> (\<forall>p \<in> set pre. \<not> isl (snd p))
            \<longrightarrow> onEvent env d completion event settings priv st = (Inl e, st'))
       \<and> ((\<forall>p \<in> set settled. \<not> isl (snd p))
            \<longrightarrow> (\<exists>rs. onEvent env d completion event settings priv st = (Inr rs, st')))
       \<and> set (map fst settled) = {0..<length subs}
       \<and> distinct (map fst settled)
       \<and> (\<forall>p \<in> set settled. \<exists>s. snd p =
              fst (onSubscription env d (subs ! fst p) event (getDestinationSettings settings) priv s))
       \<and> executed st' = executed st @
            map (\<lambda>i. (actionSlug_of (subs ! i),
                       input_of (subs ! i) event (getDestinationSettings settings)))
              (filter (\<lambda>i. executes env d (subs ! i) event) (map fst settled))
       \<and> (\<exists>new. ctx_subscriptions (ctx st') = ctx_subscriptions (ctx st) @ new \<and>
              map sub_output new =
                map (\<lambda>p. projr (snd p))
                  (filter (\<lambda>p. executes env d (subs ! fst p) event \<and> \<not> isl (snd p)) settled))"
proof (intro conjI allI impI)
  fix pre i e post
  assume "settled = pre @ (i, Inl e) # post \<and> (\<forall>p \<in> set pre. \<not> isl (snd p))"
  then have "Promise_all (length subs) settled = Inl e"
    by (simp add: Promise_all_def Promise_all_from_first_rejection)
  then show "onEvent env d completion event settings priv st = (Inl e, st')"
    by (simp add: onEvent_array [OF subs run])
next
  show idx: "set (map fst settled) = {0..<length subs}"
    by (rule settle_trace(1) [OF run])
  assume ok: "\<forall>p \<in> set settled. \<not> isl (snd p)"
  have "\<exists>rss. Promise_all (length subs) settled = Inr rss \<and> length rss = length subs \<and>
           (\<forall>i<length subs. (i, Inr (rss ! i)) \<in> set settled)"
    by (rule Promise_all_resolves [OF ok idx])
  then obtain rss where "Promise_all (length subs) settled = Inr rss" by blast
  then show "\<exists>rs. onEvent env d completion event settings priv st = (Inr rs, st')"
    by (simp add: onEvent_array [OF subs run])
next
  show "distinct (map fst settled)"
    by (rule settle_trace(2) [OF run])
  show "\<forall>p \<in> set settled. \<exists>s. snd p =
          fst (onSubscription env d (subs ! fst p) event (getDestinationSettings settings) priv s)"
    by (rule settle_outcomes [OF run])
  show "executed st' = executed st @
            map (\<lambda>i. (actionSlug_of (subs ! i),
                       input_of (subs ! i) event (getDestinationSettings settings)))
              (filter (\<lambda>i. executes env d (subs ! i) event) (map fst settled))"
    by (rule settle_trace(4) [OF run])
  from settle_trace(3) [OF run] obtain new where
    "ctx_subscriptions (ctx st') = ctx_subscriptions (ctx st) @ new \<and>
       map sub_output new =
         map (\<lambda>p. projr (snd p))
           (filter (\<lambda>p. executes env d (subs ! fst p) event \<and> \<not> isl (snd p)) settled) \<and>
       (\<forall>e \<in> set new. ei_settings (sub_input e) =
          redactSettings (getDestinationSettings settings) priv)" ..
  then have "ctx_subscriptions (ctx st') = ctx_subscriptions (ctx st) @ new \<and>
       map sub_output new =
         map (\<lambda>p. projr (snd p))
           (filter (\<lambda>p. executes env d (subs ! fst p) event \<and> \<not> isl (snd p)) settled)"
    by simp
  then show "\<exists>new. ctx_subscriptions (ctx st') = ctx_subscriptions (ctx st) @ new \<and>
              map sub_output new =
                map (\<lambda>p. projr (snd p))
                  (filter (\<lambda>p. executes env d (subs ! fst p) event \<and> \<not> isl (snd p)) settled)"
    by (rule exI)
qed

text \<open>
  Three matching subscriptions (a registered action, an action that fails, an
  unregistered slug): the unknown slug is thrown before any action is awaited, so the
  call fails with its \<open>BadRequest\<close>; both actions are still executed and the one that
  resolves is instrumented. At a list without failure the call returns a list.
\<close>

theorem onEvent_fails_with_first_failure_witness:
  "fst (onEvent demo_env demo_destination id demo_event (demo_settings (JArr demo_mixed)) []
          demo_state) = Inl (BadRequest (not_a_valid_action ''missing'')) \<and>
   map sub_output (ctx_subscriptions (ctx (snd (onEvent demo_env demo_destination id demo_event
     (demo_settings (JArr demo_mixed)) [] demo_state)))) = [[\<lparr>sr_output = demo_event\<rparr>]] \<and>
   map fst (executed (snd (onEvent demo_env demo_destination id demo_event
     (demo_settings (JArr demo_mixed)) [] demo_state))) = [''trackEvent'', ''failing''] \<and>
   (\<exists>rs. fst (onEvent demo_env demo_destination id demo_event (demo_settings (JArr demo_three)) []
            demo_state) = Inr rs)"
proof -
  let ?run = "settle demo_env demo_destination demo_mixed demo_event
        (getDestinationSettings (demo_settings (JArr demo_mixed))) []
        (schedule id (length demo_mixed)) demo_state"
  let ?run3 = "settle demo_env demo_destination demo_three demo_event
        (getDestinationSettings (demo_settings (JArr demo_three))) []
        (schedule id (length demo_three)) demo_state"
  have s1: "getSubscriptions demo_env (demo_settings (JArr demo_mixed)) = Inr (Some (JArr demo_mixed))"
    by (simp add: getSubscriptions_def demo_settings_def)
  have r1: "?run = (fst ?run, snd ?run)" by simp
  have f1: "fst ?run = [] @ (2, Inl (BadRequest (not_a_valid_action ''missing''))) #
              [(0, Inr [\<lparr>sr_output = demo_event\<rparr>]), (1, Inl (RequestError ''timeout''))]"
    by code_simp
  have p1: "\<forall>p \<in> set ([] :: (nat \<times> (error + StepResult list)) list). \<not> isl (snd p)"
    by simp
  from onEvent_fails_with_first_failure [OF s1 r1, THEN conjunct1, rule_format, OF conjI, OF f1 p1]
  have a: "fst (onEvent demo_env demo_destination id demo_event (demo_settings (JArr demo_mixed)) []
     demo_state) = Inl (BadRequest (not_a_valid_action ''missing''))"
    by simp
  have b: "map sub_output (ctx_subscriptions (ctx (snd (onEvent demo_env demo_destination id demo_event
     (demo_settings (JArr demo_mixed)) [] demo_state)))) = [[\<lparr>sr_output = demo_event\<rparr>]]"
    by code_simp
  have b': "map fst (executed (snd (onEvent demo_env demo_destination id demo_event
     (demo_settings (JArr demo_mixed)) [] demo_state))) = [''trackEvent'', ''failing'']"
    by code_simp
  have s3: "getSubscriptions demo_env (demo_settings (JArr demo_three)) = Inr (Some (JArr demo_three))"
    by (simp add: getSubscriptions_def demo_settings_def)
  have r3: "?run3 = (fst ?run3, snd ?run3)" by simp
  have f3: "fst ?run3 = [(1, Inr [\<lparr>sr_output = JStr ''not subscribed''\<rparr>]),
       (0, Inr [\<lparr>sr_output = demo_event\<rparr>]), (2, Inr [\<lparr>sr_output = demo_event\<rparr>])]"
    by code_simp
  have p3: "\<forall>p \<in> set (fst ?run3). \<not> isl (snd p)"
    unfolding f3 by simp
  from onEvent_fails_with_first_failure [OF s3 r3, THEN conjunct2, THEN conjunct1, THEN mp, OF p3]
  obtain rs where "onEvent demo_env demo_destination id demo_event (demo_settings (JArr demo_three)) []
            demo_state = (Inr rs, snd ?run3)" ..
  then have c: "\<exists>rs. fst (onEvent demo_env demo_destination id demo_event
            (demo_settings (JArr demo_three)) [] demo_state) = Inr rs"
    by simp
  from a b b' c show ?thesis by (intro conjI)
qed

text \<open>
  The claim as first stated fails at Scenario E of the spec: two subscriptions match the
  event, the second names the unregistered slug \<open>missing\<close>. The call does not succeed with
  the valid subscription's result; it fails as a whole with the \<open>BadRequest\<close> of the
  second.
\<close>

theorem unknown_action_aborts_counterexample:
  "fst (onEvent demo_env demo_destination id demo_event
          (demo_settings (JArr [subscribe_to ''track'' ''trackEvent'', subscribe_to ''track'' ''missing'']))
          [] demo_state) =
   Inl (BadRequest (not_a_valid_action ''missing''))"
  by code_simp

section \<open>Failures of the credential test\<close>

text \<open>
  C2 (amended). A failure of the caller-supplied credential probe results in the single
  generic error \<open>Credentials are invalid\<close>, whatever error the probe raised. A failure of
  the settings-validation step is not normalised: it is surfaced as the validation
  step's own error, before any probe is sent.
\<close>

theorem testCredentials_failure_kinds:
  "(\<forall>schema e. settingsSchema d = Some schema \<and>
       Validate_executeStep env '''' ''settings'' schema
         \<lparr>ei_payload = JObj [], ei_mapping = None, ei_settings = settings\<rparr> = Inl e
       \<longrightarrow> testCredentials env d settings st = (Inl e, st))
   \<and> (\<forall>a request e w.
        (case settingsSchema d of
           Some schema \<Rightarrow>
             \<not> isl (Validate_executeStep env '''' ''settings'' schema
               \<lparr>ei_payload = JObj [], ei_mapping = None, ei_settings = settings\<rparr>)
         | None \<Rightarrow> True) \<and>
        auth d = Some a \<and>
        extend_all (requestExtensions d)
          \<lparr>ei_payload = JObj [], ei_mapping = None, ei_settings = settings\<rparr> [TestDefaults] = Inr request \<and>
        options_testCredentials a request settings (world st) = (Inl e, w)
       \<longrightarrow> testCredentials env d settings st =
             (Inl (Error ''Credentials are invalid''), st\<lparr>world := w\<rparr>))"
proof (intro conjI allI impI)
  fix schema e
  assume "settingsSchema d = Some schema \<and>
       Validate_executeStep env '''' ''settings'' schema
         \<lparr>ei_payload = JObj [], ei_mapping = None, ei_settings = settings\<rparr> = Inl e"
  then show "testCredentials env d settings st = (Inl e, st)"
    by (simp add: testCredentials_def)
next
  fix a request e w
  assume h: "(case settingsSchema d of
           Some schema \<Rightarrow>
             \<not> isl (Validate_executeStep env '''' ''settings'' schema
               \<lparr>ei_payload = JObj [], ei_mapping = None, ei_settings = settings\<rparr>)
         | None \<Rightarrow> True) \<and>
        auth d = Some a \<and>
        extend_all (requestExtensions d)
          \<lparr>ei_payload = JObj [], ei_mapping = None, ei_settings = settings\<rparr> [TestDefaults] = Inr request \<and>
        options_testCredentials a request settings (world st) = (Inl e, w)"
  show "testCredentials env d settings st = (Inl (Error ''Credentials are invalid''), st\<lparr>world := w\<rparr>)"
  proof (cases "settingsSchema d")
    case None
    with h show ?thesis by (simp add: testCredentials_def)
  next
    case (Some schema)
    with h obtain x where "Validate_executeStep env '''' ''settings'' schema
               \<lparr>ei_payload = JObj [], ei_mapping = None, ei_settings = settings\<rparr> = Inr x"
      by (cases "Validate_executeStep env '''' ''settings'' schema
               \<lparr>ei_payload = JObj [], ei_mapping = None, ei_settings = settings\<rparr>") auto
    with h Some show ?thesis by (simp add: testCredentials_def)
  qed
qed

theorem testCredentials_failure_kinds_witness:
  "testCredentials demo_env demo_destination [(''region'', JStr ''eu'')] demo_state =
     (Inl (ValidationError ''settings is invalid''), demo_state) \<and>
   testCredentials demo_env demo_destination [(''apiKey'', JStr ''wrong'')] demo_state =
     (Inl (Error ''Credentials are invalid''), demo_state\<lparr>world := 1\<rparr>)"
proof -
  have s: "settingsSchema demo_destination = Some [(''required'', JArr [JStr ''apiKey''])]"
    by code_simp
  have v1: "Validate_executeStep demo_env '''' ''settings'' [(''required'', JArr [JStr ''apiKey''])]
         \<lparr>ei_payload = JObj [], ei_mapping = None, ei_settings = [(''region'', JStr ''eu'')]\<rparr> =
         Inl (ValidationError ''settings is invalid'')"
    by code_simp
  have a: "testCredentials demo_env demo_destination [(''region'', JStr ''eu'')] demo_state =
     (Inl (ValidationError ''settings is invalid''), demo_state)"
    using testCredentials_failure_kinds [of demo_destination demo_env "[(''region'', JStr ''eu'')]"
        demo_state, THEN conjunct1] s v1
    by blast
  have v2: "case settingsSchema demo_destination of
           Some schema \<Rightarrow>
             \<not> isl (Validate_executeStep demo_env '''' ''settings'' schema
               \<lparr>ei_payload = JObj [], ei_mapping = None, ei_settings = [(''apiKey'', JStr ''wrong'')]\<rparr>)
         | None \<Rightarrow> True"
    by code_simp
  have au: "auth demo_destination =
      Some \<lparr>auth_type = ''apiKey'', options_testCredentials = demo_probe\<rparr>"
    by (simp add: demo_destination_def apiKeyAuth_def)
  have ex: "extend_all (requestExtensions demo_destination)
          \<lparr>ei_payload = JObj [], ei_mapping = None, ei_settings = [(''apiKey'', JStr ''wrong'')]\<rparr>
          [TestDefaults] =
        Inr [TestDefaults, Options (JObj [(''headers'', JObj [(''x-region'', JNull)])])]"
    by code_simp
  have pr: "options_testCredentials \<lparr>auth_type = ''apiKey'', options_testCredentials = demo_probe\<rparr>
       [TestDefaults, Options (JObj [(''headers'', JObj [(''x-region'', JNull)])])]
       [(''apiKey'', JStr ''wrong'')] (world demo_state) = (Inl (RequestError ''401 Unauthorized''), 1)"
    by code_simp
  have b: "testCredentials demo_env demo_destination [(''apiKey'', JStr ''wrong'')] demo_state =
     (Inl (Error ''Credentials are invalid''), demo_state\<lparr>world := 1\<rparr>)"
    using testCredentials_failure_kinds [of demo_destination demo_env "[(''apiKey'', JStr ''wrong'')]"
        demo_state, THEN conjunct2] v2 au ex pr
    by blast
  from a b show ?thesis by (intro conjI)
qed

text \<open>
  The claim as first stated fails when the settings miss a key that the schema requires:
  the caller sees the validation error, not the generic one.
\<close>

theorem validation_error_surfaces_counterexample:
  "fst (testCredentials demo_env demo_destination [(''region'', JStr ''eu'')] demo_state) =
     Inl (ValidationError ''settings is invalid'') \<and>
   fst (testCredentials demo_env demo_destination [(''region'', JStr ''eu'')] demo_state) \<noteq>
     Inl (Error ''Credentials are invalid'')"
  by code_simp

section \<open>Subscriptions that are no list\<close>

text \<open>
  C3 (amended). When the \<open>subscriptions\<close> value of the settings is neither a string nor an
  array (absent, a number, a plain object, ...), \<open>onEvent\<close> fails for the whole event
  before any subscription is processed (the state is left as it was). The error is the
  \<open>TypeError\<close> that the language raises when \<open>subscriptions.map\<close> is called on the value:
  the source checks nothing and has no parsing error of its own.
\<close>

theorem onEvent_subscriptions_not_a_list:
  assumes "\<forall>s. map_of settings ''subscriptions'' \<noteq> Some (JStr s)"
    and "\<forall>xs. map_of settings ''subscriptions'' \<noteq> Some (JArr xs)"
  shows "onEvent env d completion event settings priv st = (Inl TypeError, st)"
proof (cases "map_of settings ''subscriptions''")
  case None
  then show ?thesis by (simp add: onEvent_def getSubscriptions_def)
next
  case (Some v)
  with assms show ?thesis
    by (cases v) (simp_all add: onEvent_def getSubscriptions_def)
qed

theorem onEvent_subscriptions_not_a_list_witness:
  "onEvent demo_env demo_destination id demo_event (demo_settings (JNum 5)) [] demo_state =
     (Inl TypeError, demo_state)"
proof -
  have 1: "\<forall>s. map_of (demo_settings (JNum 5)) ''subscriptions'' \<noteq> Some (JStr s)"
    by (simp add: demo_settings_def)
  have 2: "\<forall>xs. map_of (demo_settings (JNum 5)) ''subscriptions'' \<noteq> Some (JArr xs)"
    by (simp add: demo_settings_def)
  show ?thesis
    by (rule onEvent_subscriptions_not_a_list [OF 1 2])
qed

text \<open>
  The claim as first stated names a subscription parsing error. What the call fails with
  when \<open>subscriptions\<close> is the number 5 is the plain \<open>TypeError\<close>, the same error as for a
  well-formed list that holds \<open>null\<close> and for a subscription whose slug is \<open>toString\<close>.
\<close>

theorem not_a_list_fails_like_a_null_element_counterexample:
  "fst (onEvent demo_env demo_destination id demo_event (demo_settings (JNum 5)) [] demo_state) =
     Inl TypeError \<and>
   fst (onEvent demo_env demo_destination id demo_event (demo_settings (JArr [JNull])) []
     demo_state) = Inl TypeError \<and>
   fst (onEvent demo_env demo_destination id demo_event
     (demo_settings (JArr [subscribe_to ''track'' ''toString''])) [] demo_state) = Inl TypeError"
  by code_simp

section \<open>Subscriptions as a string or as an array\<close>

text \<open>
  C4. Let \<open>s\<close> be a JSON encoding of the subscription list \<open>A\<close>, that is a string that
  \<open>JSON.parse\<close> reads as \<open>A\<close>. Two settings objects that agree on every other entry, one
  holding \<open>s\<close> and one holding \<open>A\<close> under \<open>subscriptions\<close>, give the same run of
  \<open>onEvent\<close>: the same result and the same final state.
\<close>

theorem onEvent_string_or_array:
  assumes "map_of settings1 ''subscriptions'' = Some (JStr s)"
    and "map_of settings2 ''subscriptions'' = Some (JArr A)"
    and "getDestinationSettings settings1 = getDestinationSettings settings2"
    and "JSON_parse env s = Inr (JArr A)"
  shows "onEvent env d completion event settings1 priv st =
         onEvent env d completion event settings2 priv st"
  using assms by (simp add: onEvent_def getSubscriptions_def)

theorem onEvent_string_or_array_witness:
  "onEvent demo_env demo_destination id demo_event (demo_settings (JStr demo_subscriptions_text))
     [JStr ''apiKey''] demo_state =
   onEvent demo_env demo_destination id demo_event
     (demo_settings (JArr [subscribe_to ''track'' ''trackEvent''])) [JStr ''apiKey''] demo_state"
proof -
  have 1: "map_of (demo_settings (JStr demo_subscriptions_text)) ''subscriptions'' =
             Some (JStr demo_subscriptions_text)"
    by (simp add: demo_settings_def)
  have 2: "map_of (demo_settings (JArr [subscribe_to ''track'' ''trackEvent''])) ''subscriptions'' =
             Some (JArr [subscribe_to ''track'' ''trackEvent''])"
    by (simp add: demo_settings_def)
  have 3: "getDestinationSettings (demo_settings (JStr demo_subscriptions_text)) =
           getDestinationSettings (demo_settings (JArr [subscribe_to ''track'' ''trackEvent'']))"
    by (simp add: demo_settings_def getDestinationSettings_def)
  have 4: "JSON_parse demo_env demo_subscriptions_text = Inr (JArr [subscribe_to ''track'' ''trackEvent''])"
    by code_simp
  show ?thesis
    by (rule onEvent_string_or_array [OF 1 2 3 4])
qed

section \<open>Not subscribed\<close>

text \<open>
  C5. A subscription whose predicate does not match the event short-circuits: whatever
  the destination has registered, the attempt resolves with the single step result
  \<open>"not subscribed"\<close> and leaves the whole state as it was, so no action was executed
  (the world and the list of executions are unchanged) and nothing was instrumented
  (the Context is unchanged).
\<close>

theorem not_subscribed_short_circuits:
  assumes "subscription \<noteq> JNull"
    and "validate env (member subscription ''subscribe'') event = Inr False"
  shows "onSubscription env d subscription event settings priv st =
           (Inr [\<lparr>sr_output = JStr ''not subscribed''\<rparr>], st)"
  using assms by (simp add: onSubscription_def onSubscription_start_def)

theorem not_subscribed_short_circuits_witness:
  "onSubscription demo_env demo_destination (subscribe_to ''page'' ''trackEvent'') demo_event
     [(''apiKey'', JStr ''secret'')] [] demo_state =
   (Inr [\<lparr>sr_output = JStr ''not subscribed''\<rparr>], demo_state)"
proof -
  have n: "subscribe_to ''page'' ''trackEvent'' \<noteq> JNull"
    by (simp add: subscribe_to_def)
  have v: "validate demo_env (member (subscribe_to ''page'' ''trackEvent'') ''subscribe'') demo_event
             = Inr False"
    by (simp add: demo_env_def demo_validate_def subscribe_to_def demo_event_def dq_def)
  show ?thesis
    by (rule not_subscribed_short_circuits [OF n v])
qed

section \<open>Instrumentation\<close>

text \<open>
  C6 (amended). A subscription attempt appends exactly one instrumentation entry to the
  Context's subscriptions log when its predicate matches, its action is registered and
  the action's pipeline resolves; an attempt that is not subscribed, or that fails,
  appends none. Earlier entries are kept in both cases.
\<close>

theorem instrumented_when_resolved:
  assumes "onSubscription env d subscription event settings priv st = (r, st')"
  shows "\<exists>new. ctx_subscriptions (ctx st') = ctx_subscriptions (ctx st) @ new \<and>
           length new = (if executes_and_resolves env d subscription event settings st then 1 else 0)"
  using onSubscription_frame [OF assms] by blast

theorem instrumented_when_resolved_witness:
  "(\<exists>new. ctx_subscriptions (ctx (snd (onSubscription demo_env demo_destination
              (subscribe_to ''track'' ''trackEvent'') demo_event [(''apiKey'', JStr ''secret'')] []
              demo_state))) = ctx_subscriptions (ctx demo_state) @ new \<and> length new = 1) \<and>
   (\<exists>new. ctx_subscriptions (ctx (snd (onSubscription demo_env demo_destination
              (subscribe_to ''track'' ''failing'') demo_event [(''apiKey'', JStr ''secret'')] []
              demo_state))) = ctx_subscriptions (ctx demo_state) @ new \<and> length new = 0)"
proof -
  have 1: "executes_and_resolves demo_env demo_destination (subscribe_to ''track'' ''trackEvent'')
             demo_event [(''apiKey'', JStr ''secret'')] demo_state"
    by code_simp
  have 2: "\<not> executes_and_resolves demo_env demo_destination (subscribe_to ''track'' ''failing'')
             demo_event [(''apiKey'', JStr ''secret'')] demo_state"
    by code_simp
  from instrumented_when_resolved [OF prod.collapse [symmetric],
      of demo_env demo_destination "subscribe_to ''track'' ''trackEvent''" demo_event
        "[(''apiKey'', JStr ''secret'')]" "[]" demo_state]
    instrumented_when_resolved [OF prod.collapse [symmetric],
      of demo_env demo_destination "subscribe_to ''track'' ''failing''" demo_event
        "[(''apiKey'', JStr ''secret'')]" "[]" demo_state]
  show ?thesis
    by (simp only: 1 2 if_True if_False)
qed

text \<open>
  The claim as first stated fails for an attempt whose predicate does not match: after
  an event with one such subscription the log is as long as before.
\<close>

theorem not_subscribed_not_instrumented_counterexample:
  "length (ctx_subscriptions (ctx (snd (onEvent demo_env demo_destination id demo_event
      (demo_settings (JArr [subscribe_to ''page'' ''trackEvent''])) [] demo_state)))) =
   length (ctx_subscriptions (ctx demo_state))"
  by code_simp

section \<open>Redaction of private settings\<close>

text \<open>
  C7 (amended). Every instrumentation record that \<open>onEvent\<close> appends to the Context stores
  a settings object with the keys of the destination settings, in which every entry
  whose key is listed in \<open>privateSettings\<close> holds the placeholder instead of its value.
  The guarantee covers the stored settings object only.
\<close>

theorem instrumentation_is_redacted:
  assumes "onEvent env d completion event settings priv st = (r, st')"
  shows "\<exists>new. ctx_subscriptions (ctx st') = ctx_subscriptions (ctx st) @ new \<and>
           (\<forall>entry \<in> set new.
              map fst (ei_settings (sub_input entry)) = map fst (getDestinationSettings settings) \<and>
              (\<forall>k v. JStr k \<in> set priv \<longrightarrow> (k, v) \<in> set (ei_settings (sub_input entry))
                 \<longrightarrow> v = REDACTED))"
proof -
  from onEvent_frame [OF assms] obtain new where new:
    "ctx_subscriptions (ctx st') = ctx_subscriptions (ctx st) @ new"
    "\<forall>e \<in> set new. ei_settings (sub_input e) = redactSettings (getDestinationSettings settings) priv"
    by blast
  have "\<forall>entry \<in> set new.
          map fst (ei_settings (sub_input entry)) = map fst (getDestinationSettings settings) \<and>
          (\<forall>k v. JStr k \<in> set priv \<longrightarrow> (k, v) \<in> set (ei_settings (sub_input entry))
             \<longrightarrow> v = REDACTED)"
    using new(2) by (auto simp: redactSettings_keys dest: redactSettings_private)
  with new(1) show ?thesis by blast
qed

text \<open>With \<open>apiKey\<close> private, both records of a run with two executed subscriptions hold
  the placeholder under \<open>apiKey\<close> and the region as it was.\<close>

theorem instrumentation_is_redacted_witness:
  "map (\<lambda>entry. ei_settings (sub_input entry))
     (ctx_subscriptions (ctx (snd (onEvent demo_env demo_destination id demo_event
        (demo_settings (JArr demo_three)) [JStr ''apiKey''] demo_state)))) =
   [[(''apiKey'', REDACTED), (''region'', JStr ''eu'')],
    [(''apiKey'', REDACTED), (''region'', JStr ''eu'')]]"
proof -
  let ?st = "snd (onEvent demo_env demo_destination id demo_event
        (demo_settings (JArr demo_three)) [JStr ''apiKey''] demo_state)"
  from instrumentation_is_redacted [OF prod.collapse [symmetric],
      of demo_env demo_destination id demo_event "demo_settings (JArr demo_three)"
        "[JStr ''apiKey'']" demo_state]
  obtain new where new: "ctx_subscriptions (ctx ?st) = ctx_subscriptions (ctx demo_state) @ new"
    and red: "\<forall>entry \<in> set new.
              map fst (ei_settings (sub_input entry)) =
                map fst (getDestinationSettings (demo_settings (JArr demo_three))) \<and>
              (\<forall>k v. JStr k \<in> set [JStr ''apiKey''] \<longrightarrow> (k, v) \<in> set (ei_settings (sub_input entry))
                 \<longrightarrow> v = REDACTED)"
    by blast
  have len: "length (ctx_subscriptions (ctx ?st)) = 2"
    by code_simp
  have rest: "map (\<lambda>entry. map_of (ei_settings (sub_input entry)) ''region'')
                (ctx_subscriptions (ctx ?st)) = [Some (JStr ''eu''), Some (JStr ''eu'')]"
    by code_simp
  have keys: "map fst (getDestinationSettings (demo_settings (JArr demo_three))) = [''apiKey'', ''region'']"
    by (simp add: getDestinationSettings_def demo_settings_def)
  from new have log: "ctx_subscriptions (ctx ?st) = new"
    by (simp add: demo_state_def)
  have "ei_settings (sub_input entry) = [(''apiKey'', REDACTED), (''region'', JStr ''eu'')]"
    if "entry \<in> set new" and "map_of (ei_settings (sub_input entry)) ''region'' = Some (JStr ''eu'')" for entry
  proof -
    from red that(1) keys have k: "map fst (ei_settings (sub_input entry)) = [''apiKey'', ''region'']"
      and r: "\<And>v. (''apiKey'', v) \<in> set (ei_settings (sub_input entry)) \<Longrightarrow> v = REDACTED"
      by auto
    from k obtain a b where ab: "ei_settings (sub_input entry) = [(''apiKey'', a), (''region'', b)]"
      by (auto simp: map_eq_Cons_conv)
    with r [of a] that(2) show ?thesis by simp
  qed
  with len rest show ?thesis
    unfolding log by (cases new rule: list.exhaust; simp) (auto simp: length_Suc_conv)
qed

text \<open>
  The claim as first stated says that the private value never appears in the persisted
  record. The record also persists the action's output as it is: with \<open>apiKey\<close> private
  and an action that answers with the settings it was given, the record's output holds
  the key.
\<close>

theorem echoed_private_value_is_persisted_counterexample:
  "map sub_output (ctx_subscriptions (ctx (snd (onEvent demo_env demo_destination id demo_event
      (demo_settings (JArr [subscribe_to ''track'' ''echo''])) [JStr ''apiKey''] demo_state)))) =
   [[\<lparr>sr_output = JObj [(''apiKey'', JStr ''secret''), (''region'', JStr ''eu'')]\<rparr>]]"
  by code_simp

section \<open>Destination settings and the caller's object\<close>

text \<open>
  C8. Let the caller's settings object be in the store at address \<open>settings\<close>. After
  \<open>onEvent\<close> the object at that address is what it was, as is every object the store held
  before the call (the destination settings are a new object), and every action
  execution that \<open>onEvent\<close> starts is handed, as its settings, the caller's settings with
  exactly the \<open>subscriptions\<close> key removed: the other entries in their order, so that
  every other key reads as in the caller's object.
\<close>

theorem caller_settings_are_not_mutated:
  assumes a: "settings < length objects"
    and run: "onEvent_at env d completion event settings priv st objects = ((r, st'), objects')"
  shows "objects' ! settings = objects ! settings
       \<and> take (length objects) objects' = objects
       \<and> (\<exists>ran. executed st' = executed st @ ran \<and>
             (\<forall>c \<in> set ran.
                ei_settings (snd c) =
                  filter (\<lambda>(k, v). k \<noteq> ''subscriptions'') (objects ! settings) \<and>
                (\<forall>k. map_of (ei_settings (snd c)) k =
                       (if k = ''subscriptions'' then None else map_of (objects ! settings) k))))"
proof (intro conjI)
  from onEvent_at_store [of env d completion event settings priv st objects] run
  have store: "objects' = objects \<or> objects' = objects @ [getDestinationSettings (objects ! settings)]"
    by simp
  with a show "objects' ! settings = objects ! settings"
    by (auto simp: nth_append)
  from store show "take (length objects) objects' = objects"
    by auto
  from onEvent_at_content [of env d completion event settings priv st objects] run
  have "onEvent env d completion event (objects ! settings) priv st = (r, st')"
    by simp
  from onEvent_frame [OF this] obtain ran where ran:
    "executed st' = executed st @ ran"
    "\<forall>c \<in> set ran. ei_settings (snd c) = getDestinationSettings (objects ! settings)"
    by blast
  have "\<forall>c \<in> set ran.
          ei_settings (snd c) = filter (\<lambda>(k, v). k \<noteq> ''subscriptions'') (objects ! settings) \<and>
          (\<forall>k. map_of (ei_settings (snd c)) k =
                 (if k = ''subscriptions'' then None else map_of (objects ! settings) k))"
  proof
    fix c assume "c \<in> set ran"
    with ran(2) have e: "ei_settings (snd c) = getDestinationSettings (objects ! settings)" by blast
    show "ei_settings (snd c) = filter (\<lambda>(k, v). k \<noteq> ''subscriptions'') (objects ! settings) \<and>
          (\<forall>k. map_of (ei_settings (snd c)) k =
                 (if k = ''subscriptions'' then None else map_of (objects ! settings) k))"
      unfolding e by (simp add: map_of_getDestinationSettings) (simp add: getDestinationSettings_def)
  qed
  with ran(1) show "\<exists>ran. executed st' = executed st @ ran \<and>
             (\<forall>c \<in> set ran.
                ei_settings (snd c) =
                  filter (\<lambda>(k, v). k \<noteq> ''subscriptions'') (objects ! settings) \<and>
                (\<forall>k. map_of (ei_settings (snd c)) k =
                       (if k = ''subscriptions'' then None else map_of (objects ! settings) k)))"
    by blast
qed

theorem caller_settings_are_not_mutated_witness:
  "snd (onEvent_at demo_env demo_destination id demo_event 0 [JStr ''apiKey''] demo_state
          [demo_settings (JArr demo_mixed)]) ! 0 = demo_settings (JArr demo_mixed) \<and>
   take 1 (snd (onEvent_at demo_env demo_destination id demo_event 0 [JStr ''apiKey''] demo_state
          [demo_settings (JArr demo_mixed)])) = [demo_settings (JArr demo_mixed)] \<and>
   map (\<lambda>c. ei_settings (snd c))
     (executed (snd (fst (onEvent_at demo_env demo_destination id demo_event 0 [JStr ''apiKey'']
        demo_state [demo_settings (JArr demo_mixed)])))) =
   [[(''apiKey'', JStr ''secret''), (''region'', JStr ''eu'')],
    [(''apiKey'', JStr ''secret''), (''region'', JStr ''eu'')]]"
proof -
  let ?call = "onEvent_at demo_env demo_destination id demo_event 0 [JStr ''apiKey''] demo_state
          [demo_settings (JArr demo_mixed)]"
  have a: "(0::nat) < length [demo_settings (JArr demo_mixed)]" by simp
  have c: "?call = ((fst (fst ?call), snd (fst ?call)), snd ?call)" by simp
  note t = caller_settings_are_not_mutated [OF a c]
  from t have 1: "snd ?call ! 0 = demo_settings (JArr demo_mixed)" by simp
  from t have 2: "take 1 (snd ?call) = [demo_settings (JArr demo_mixed)]" by simp
  from t obtain ran where ran: "executed (snd (fst ?call)) = executed demo_state @ ran"
    and stripped: "\<forall>c \<in> set ran. ei_settings (snd c) =
        filter (\<lambda>(k, v). k \<noteq> ''subscriptions'') ([demo_settings (JArr demo_mixed)] ! 0)"
    by blast
  have len: "length (executed (snd (fst ?call))) = 2"
    by code_simp
  have flt: "filter (\<lambda>(k, v). k \<noteq> ''subscriptions'') ([demo_settings (JArr demo_mixed)] ! 0) =
             [(''apiKey'', JStr ''secret''), (''region'', JStr ''eu'')]"
    by (simp add: demo_settings_def)
  from ran have log: "executed (snd (fst ?call)) = ran"
    by (simp add: demo_state_def)
  from stripped have "map (\<lambda>c. ei_settings (snd c)) ran =
      replicate (length ran) [(''apiKey'', JStr ''secret''), (''region'', JStr ''eu'')]"
    unfolding flt by (simp add: map_replicate_const [symmetric])
  with len have 3: "map (\<lambda>c. ei_settings (snd c)) (executed (snd (fst ?call))) =
   [[(''apiKey'', JStr ''secret''), (''region'', JStr ''eu'')],
    [(''apiKey'', JStr ''secret''), (''region'', JStr ''eu'')]]"
    unfolding log by (simp add: numeral_2_eq_2)
  from 1 2 3 show ?thesis by (intro conjI)
qed

section \<open>Order of the aggregated result\<close>

text \<open>
  C9. Whatever the order in which the subscription tasks complete, a result list that
  \<open>onEvent\<close> returns is the concatenation, in subscription-declaration order, of the
  StepResult sequences the tasks resolved with: it is \<open>concat rss\<close> for a list \<open>rss\<close>
  with one element per subscription, the element at index \<open>i\<close> being what the task of
  subscription \<open>i\<close> resolved with.
\<close>

theorem onEvent_declaration_order:
  assumes subs: "getSubscriptions env settings = Inr (Some (JArr subs))"
    and run: "settle env d subs event (getDestinationSettings settings) priv
           (schedule completion (length subs)) st = (settled, st')"
    and res: "fst (onEvent env d completion event settings priv st) = Inr rs"
  shows "\<exists>rss. rs = concat rss \<and> length rss = length subs \<and>
           (\<forall>i<length subs. (i, Inr (rss ! i)) \<in> set settled)"
proof -
  have idx: "set (map fst settled) = {0..<length subs}"
    by (rule settle_trace(1) [OF run])
  from res have "\<exists>results. Promise_all (length subs) settled = Inr results"
    by (cases "Promise_all (length subs) settled") (simp_all add: onEvent_array [OF subs run])
  then have ok: "\<forall>p \<in> set settled. \<not> isl (snd p)"
    by (auto simp: Promise_all_def Promise_all_from_Inr)
  have "\<exists>rss. Promise_all (length subs) settled = Inr rss \<and> length rss = length subs \<and>
           (\<forall>i<length subs. (i, Inr (rss ! i)) \<in> set settled)"
    by (rule Promise_all_resolves [OF ok idx])
  then obtain rss where rss: "Promise_all (length subs) settled = Inr rss"
    "length rss = length subs" "\<forall>i<length subs. (i, Inr (rss ! i)) \<in> set settled"
    by blast
  from res rss(1) have "rs = concat rss"
    by (simp add: onEvent_array [OF subs run])
  with rss show ?thesis by blast
qed

text \<open>Three subscriptions whose tasks complete in the reverse of their declaration order:
  the result is in declaration order.\<close>

theorem onEvent_declaration_order_witness:
  "\<exists>rss. [\<lparr>sr_output = demo_event\<rparr>, \<lparr>sr_output = JStr ''not subscribed''\<rparr>,
            \<lparr>sr_output = demo_event\<rparr>] = concat rss \<and>
          length rss = length demo_three \<and>
          (\<forall>i<length demo_three. (i, Inr (rss ! i)) \<in>
             set (fst (settle demo_env demo_destination demo_three demo_event
               (getDestinationSettings (demo_settings (JArr demo_three))) []
               (schedule (\<lambda>i. 2 - i) (length demo_three)) demo_state)))"
proof -
  have 1: "getSubscriptions demo_env (demo_settings (JArr demo_three)) = Inr (Some (JArr demo_three))"
    by (simp add: getSubscriptions_def demo_settings_def)
  have 2: "settle demo_env demo_destination demo_three demo_event
               (getDestinationSettings (demo_settings (JArr demo_three))) []
               (schedule (\<lambda>i. 2 - i) (length demo_three)) demo_state =
           (fst (settle demo_env demo_destination demo_three demo_event
               (getDestinationSettings (demo_settings (JArr demo_three))) []
               (schedule (\<lambda>i. 2 - i) (length demo_three)) demo_state),
            snd (settle demo_env demo_destination demo_three demo_event
               (getDestinationSettings (demo_settings (JArr demo_three))) []
               (schedule (\<lambda>i. 2 - i) (length demo_three)) demo_state))"
    by simp
  have 3: "fst (onEvent demo_env demo_destination (\<lambda>i. 2 - i) demo_event
             (demo_settings (JArr demo_three)) [] demo_state) =
           Inr [\<lparr>sr_output = demo_event\<rparr>, \<lparr>sr_output = JStr ''not subscribed''\<rparr>,
                \<lparr>sr_output = demo_event\<rparr>]"
    by code_simp
  show ?thesis
    by (rule onEvent_declaration_order [OF 1 2 3])
qed

section \<open>Credential testing without schema and probe\<close>

text \<open>
  C10. A destination with no settings schema and no authentication configured passes the
  credential test for every settings object, and the state is left as it was: no probe
  request is issued, so success does not mean that any credential was checked.
\<close>

theorem testCredentials_without_auth:
  assumes "settingsSchema d = None" and "auth d = None"
  shows "testCredentials env d settings st = (Inr (), st)"
  using assms by (simp add: testCredentials_def)

theorem testCredentials_without_auth_witness:
  "testCredentials demo_env (new_Destination \<lparr>name = ''demo'', defaultSubscriptions = []\<rparr>)
     [(''apiKey'', JStr ''wrong'')] demo_state = (Inr (), demo_state)"
proof -
  have s: "settingsSchema (new_Destination \<lparr>name = ''demo'', defaultSubscriptions = []\<rparr> :: nat Destination) = None"
    by (simp add: new_Destination_def)
  have a: "auth (new_Destination \<lparr>name = ''demo'', defaultSubscriptions = []\<rparr> :: nat Destination) = None"
    by (simp add: new_Destination_def)
  show ?thesis
    by (rule testCredentials_without_auth [OF s a])
qed

end
